theory Spec2Isabelle
  imports Main
begin

section \<open>Strings\<close>

text \<open>
  A JavaScript string is modelled as a \<open>string\<close>: one \<open>char\<close> per code unit, for the
  code units U+0000 to U+00FF. \<open>is_space\<close> is the white space of \<open>String.prototype.trim\<close>
  and of the regular expression class \<open>\s\<close> in that range: TAB, LF, VT, FF, CR, SPACE
  and NBSP.
\<close>

definition is_space :: "char \<Rightarrow> bool" where
  "is_space c = (of_char c \<in> {9, 10, 11, 12, 13, 32, 160 :: nat})"

definition trim :: "string \<Rightarrow> string" where
  "trim s = rev (dropWhile is_space (rev (dropWhile is_space s)))"

definition digit_char :: "nat \<Rightarrow> char" where
  "digit_char d = char_of (48 + d)"

text \<open>Decimal rendering of a non-negative integer, as a template literal prints it.\<close>

function show_nat :: "nat \<Rightarrow> string" where
  "show_nat n = (if n < 10 then [digit_char n] else show_nat (n div 10) @ [digit_char (n mod 10)])"
  by pat_completeness auto
termination
  by (relation "measure id") auto

declare show_nat.simps [simp del]

text \<open>\<open>split_at pat s\<close> splits \<open>s\<close> around the leftmost occurrence of \<open>pat\<close>.\<close>

fun split_at :: "string \<Rightarrow> string \<Rightarrow> (string \<times> string) option" where
  "split_at pat [] = (if pat = [] then Some ([], []) else None)"
| "split_at pat (c # cs) =
     (if take (length pat) (c # cs) = pat then Some ([], drop (length pat) (c # cs))
      else (case split_at pat cs of None \<Rightarrow> None | Some (pre, post) \<Rightarrow> Some (c # pre, post)))"

section \<open>JSON values and \<open>JSON.parse\<close>\<close>

text \<open>
  The untyped tree that \<open>JSON.parse\<close> returns. A number keeps its literal: its value as
  an IEEE double is outside this development. An object is the list of its own
  properties, one entry per key, in the order of their creation (that JavaScript
  enumerates integer-like keys first is not modelled).
\<close>

datatype json =
    JNull
  | JBool bool
  | JNumber string
  | JString string
  | JArray "json list"
  | JObject "(string \<times> json) list"

datatype token =
    TLBrace | TRBrace | TLBracket | TRBracket | TColon | TComma
  | TString string | TNumber string | TTrue | TFalse | TNull

definition is_digit :: "char \<Rightarrow> bool" where
  "is_digit c = (48 \<le> (of_char c :: nat) \<and> (of_char c :: nat) \<le> 57)"

definition hex_val :: "char \<Rightarrow> nat option" where
  "hex_val c =
     (let n = (of_char c :: nat) in
      if 48 \<le> n \<and> n \<le> 57 then Some (n - 48)
      else if 65 \<le> n \<and> n \<le> 70 then Some (n - 55)
      else if 97 \<le> n \<and> n \<le> 102 then Some (n - 87)
      else None)"

text \<open>
  A \<open>\uXXXX\<close> escape denotes one code unit; those above U+00FF have no \<open>char\<close> and
  are outside the model (the text is then not parsed).
\<close>

definition unicode_escape :: "char \<Rightarrow> char \<Rightarrow> char \<Rightarrow> char \<Rightarrow> char option" where
  "unicode_escape a b c d =
     (case (hex_val a, hex_val b, hex_val c, hex_val d) of
        (Some x, Some y, Some z, Some w) \<Rightarrow>
          (let n = 4096 * x + 256 * y + 16 * z + w in
           if n < 256 then Some (char_of n) else None)
      | _ \<Rightarrow> None)"

definition simple_escape :: "char \<Rightarrow> char option" where
  "simple_escape e =
     (if e = CHR 0x22 then Some (CHR 0x22)
      else if e = CHR 0x5C then Some (CHR 0x5C)
      else if e = CHR ''/'' then Some (CHR ''/'')
      else if e = CHR ''b'' then Some (CHR 0x08)
      else if e = CHR ''f'' then Some (CHR 0x0C)
      else if e = CHR ''n'' then Some (CHR 0x0A)
      else if e = CHR ''r'' then Some (CHR 0x0D)
      else if e = CHR ''t'' then Some (CHR 0x09)
      else None)"

text \<open>The characters of a string literal after its opening quote, and what follows it.\<close>

fun lex_string :: "string \<Rightarrow> (string \<times> string) option" where
  "lex_string [] = None"
| "lex_string (c # cs) =
     (if c = CHR 0x22 then Some ([], cs)
      else if c = CHR 0x5C then
        (case cs of
           [] \<Rightarrow> None
         | e # cs1 \<Rightarrow>
             (if e = CHR ''u'' then
                (case cs1 of
                   h1 # h2 # h3 # h4 # cs2 \<Rightarrow>
                     (case unicode_escape h1 h2 h3 h4 of
                        None \<Rightarrow> None
                      | Some u \<Rightarrow>
                          (case lex_string cs2 of None \<Rightarrow> None
                           | Some (s, rest) \<Rightarrow> Some (u # s, rest)))
                 | _ \<Rightarrow> None)
              else
                (case simple_escape e of
                   None \<Rightarrow> None
                 | Some u \<Rightarrow>
                     (case lex_string cs1 of None \<Rightarrow> None
                      | Some (s, rest) \<Rightarrow> Some (u # s, rest)))))
      else if (of_char c :: nat) < 32 then None
      else (case lex_string cs of None \<Rightarrow> None | Some (s, rest) \<Rightarrow> Some (c # s, rest)))"

text \<open>The JSON number grammar: \<open>-? (0 | [1-9][0-9]*) (. [0-9]+)? ([eE] [+-]? [0-9]+)?\<close>.\<close>

definition valid_exponent :: "string \<Rightarrow> bool" where
  "valid_exponent s =
     (s = [] \<or>
      (case s of
         e # r \<Rightarrow>
           (e = CHR ''e'' \<or> e = CHR ''E'') \<and>
           (let d = (case r of g # r' \<Rightarrow> if g = CHR ''+'' \<or> g = CHR ''-'' then r' else r | [] \<Rightarrow> r)
            in d \<noteq> [] \<and> list_all is_digit d)
       | [] \<Rightarrow> False))"

definition valid_fraction :: "string \<Rightarrow> bool" where
  "valid_fraction s =
     (case s of
        c # r \<Rightarrow>
          (if c = CHR ''.'' then takeWhile is_digit r \<noteq> [] \<and> valid_exponent (dropWhile is_digit r)
           else valid_exponent s)
      | [] \<Rightarrow> True)"

definition valid_number :: "string \<Rightarrow> bool" where
  "valid_number s =
     (let u = (case s of c # r \<Rightarrow> if c = CHR ''-'' then r else s | [] \<Rightarrow> s) in
      case u of
        [] \<Rightarrow> False
      | c # r \<Rightarrow>
          (if c = CHR ''0'' then valid_fraction r
           else is_digit c \<and> valid_fraction (dropWhile is_digit r)))"

definition is_numchar :: "char \<Rightarrow> bool" where
  "is_numchar c = (is_digit c \<or> c = CHR ''-'' \<or> c = CHR ''+'' \<or> c = CHR ''.'' \<or> c = CHR ''e'' \<or> c = CHR ''E'')"

definition json_ws :: "char \<Rightarrow> bool" where
  "json_ws c = (of_char c \<in> {9, 10, 13, 32 :: nat})"

definition cons_tok :: "token \<Rightarrow> token list option \<Rightarrow> token list option" where
  "cons_tok t r = (case r of None \<Rightarrow> None | Some ts \<Rightarrow> Some (t # ts))"

lemma lex_string_shorter: "lex_string cs = Some (s, rest) \<Longrightarrow> length rest < Suc (length cs)"
proof (induction cs arbitrary: s rest rule: lex_string.induct)
  case 1
  then show ?case by simp
next
  case (2 c cs)
  show ?case
  proof (cases "c = CHR 0x22")
    case True
    with "2.prems" show ?thesis by simp
  next
    case nq: False
    show ?thesis
    proof (cases "c = CHR 0x5C")
      case True
      with nq "2.prems" obtain e cs1 where cs: "cs = e # cs1"
        by (auto split: list.splits)
      show ?thesis
      proof (cases "e = CHR ''u''")
        case u: True
        with nq True cs "2.prems" obtain h1 h2 h3 h4 cs2 x s' where
          cs1: "cs1 = h1 # h2 # h3 # h4 # cs2" and
          ue: "unicode_escape h1 h2 h3 h4 = Some x" and
          r: "lex_string cs2 = Some (s', rest)"
          by (auto split: list.splits option.splits)
        from "2.IH"(1) [OF nq True cs u cs1 _ _ _ ue r] have "length rest < Suc (length cs2)"
          by simp
        with cs cs1 show ?thesis by simp
      next
        case nu: False
        with nq True cs "2.prems" obtain x s' where
          se: "simple_escape e = Some x" and r: "lex_string cs1 = Some (s', rest)"
          by (auto split: option.splits)
        from "2.IH"(2) [OF nq True cs nu se r] have "length rest < Suc (length cs1)" .
        with cs show ?thesis by simp
      qed
    next
      case nb: False
      with nq "2.prems" obtain s' where
        c: "\<not> (of_char c :: nat) < 32" and r: "lex_string cs = Some (s', rest)"
        by (auto split: if_splits option.splits)
      from "2.IH"(3) [OF nq nb c r] have "length rest < Suc (length cs)" .
      then show ?thesis by simp
    qed
  qed
qed

function lex :: "string \<Rightarrow> token list option" where
  "lex [] = Some []"
| "lex (c # cs) =
     (if json_ws c then lex cs
      else if c = CHR ''{'' then cons_tok TLBrace (lex cs)
      else if c = CHR ''}'' then cons_tok TRBrace (lex cs)
      else if c = CHR ''['' then cons_tok TLBracket (lex cs)
      else if c = CHR '']'' then cons_tok TRBracket (lex cs)
      else if c = CHR '':'' then cons_tok TColon (lex cs)
      else if c = CHR '','' then cons_tok TComma (lex cs)
      else if c = CHR 0x22 then
        (case lex_string cs of
           None \<Rightarrow> None
         | Some (s, rest) \<Rightarrow> cons_tok (TString s) (lex rest))
      else if c = CHR ''-'' \<or> is_digit c then
        (if valid_number (c # takeWhile is_numchar cs)
         then cons_tok (TNumber (c # takeWhile is_numchar cs)) (lex (dropWhile is_numchar cs))
         else None)
      else if take 4 (c # cs) = ''true'' then cons_tok TTrue (lex (drop 3 cs))
      else if take 5 (c # cs) = ''false'' then cons_tok TFalse (lex (drop 4 cs))
      else if take 4 (c # cs) = ''null'' then cons_tok TNull (lex (drop 3 cs))
      else None)"
  by pat_completeness auto
termination
  by (relation "measure length") (auto dest: lex_string_shorter simp: length_dropWhile_le less_Suc_eq_le)

text \<open>
  Defining a property of an object: the value of an existing key is replaced in place,
  a new key is appended (a repeated key of the text keeps its last value).
\<close>

fun set_prop :: "string \<Rightarrow> 'a \<Rightarrow> (string \<times> 'a) list \<Rightarrow> (string \<times> 'a) list" where
  "set_prop k v [] = [(k, v)]"
| "set_prop k v (p # ps) = (if fst p = k then (k, v) # ps else p # set_prop k v ps)"

datatype frame =
    InArr "json list"
  | InObj "(string \<times> json) list"
  | InMember "(string \<times> json) list" string

datatype mode = WantValue | WantValueOrEnd | WantKey | WantKeyOrEnd | WantColon | Done json

text \<open>
  The grammar of JSON values over tokens, as a pushdown automaton: one token is consumed
  per step, the stack holds the arrays (elements in reverse) and objects under construction.
\<close>

fun run :: "mode \<Rightarrow> frame list \<Rightarrow> token list \<Rightarrow> json option" where
  "run m stk [] = (case m of Done v \<Rightarrow> (if stk = [] then Some v else None) | _ \<Rightarrow> None)"
| "run m stk (t # ts) =
     (case m of
        Done v \<Rightarrow>
          (case stk of
             [] \<Rightarrow> None
           | InArr acc # stk' \<Rightarrow>
               (case t of
                  TComma \<Rightarrow> run WantValue (InArr (v # acc) # stk') ts
                | TRBracket \<Rightarrow> run (Done (JArray (rev (v # acc)))) stk' ts
                | _ \<Rightarrow> None)
           | InMember ms k # stk' \<Rightarrow>
               (case t of
                  TComma \<Rightarrow> run WantKey (InObj (set_prop k v ms) # stk') ts
                | TRBrace \<Rightarrow> run (Done (JObject (set_prop k v ms))) stk' ts
                | _ \<Rightarrow> None)
           | InObj ms # stk' \<Rightarrow> None)
      | WantColon \<Rightarrow> (case t of TColon \<Rightarrow> run WantValue stk ts | _ \<Rightarrow> None)
      | WantKey \<Rightarrow>
          (case (t, stk) of
             (TString k, InObj ms # stk') \<Rightarrow> run WantColon (InMember ms k # stk') ts
           | _ \<Rightarrow> None)
      | WantKeyOrEnd \<Rightarrow>
          (case (t, stk) of
             (TString k, InObj ms # stk') \<Rightarrow> run WantColon (InMember ms k # stk') ts
           | (TRBrace, InObj ms # stk') \<Rightarrow> run (Done (JObject ms)) stk' ts
           | _ \<Rightarrow> None)
      | _ \<Rightarrow>
          (case t of
             TString s \<Rightarrow> run (Done (JString s)) stk ts
           | TNumber n \<Rightarrow> run (Done (JNumber n)) stk ts
           | TTrue \<Rightarrow> run (Done (JBool True)) stk ts
           | TFalse \<Rightarrow> run (Done (JBool False)) stk ts
           | TNull \<Rightarrow> run (Done JNull) stk ts
           | TLBracket \<Rightarrow> run WantValueOrEnd (InArr [] # stk) ts
           | TLBrace \<Rightarrow> run WantKeyOrEnd (InObj [] # stk) ts
           | TRBracket \<Rightarrow>
               (case (m, stk) of
                  (WantValueOrEnd, InArr acc # stk') \<Rightarrow> run (Done (JArray [])) stk' ts
                | _ \<Rightarrow> None)
           | _ \<Rightarrow> None))"

definition JSON_parse :: "string \<Rightarrow> json option" where
  "JSON_parse s = (case lex s of None \<Rightarrow> None | Some ts \<Rightarrow> run WantValue [] ts)"

section \<open>Dynamic checks on parsed values\<close>

text \<open>
  \<open>get_prop k v\<close> is the property read \<open>v.k\<close> for the keys this program reads
  (\<open>options\<close>, \<open>tradeOffs\<close>, \<open>name\<close>, \<open>pros\<close>, \<open>cons\<close>, \<open>scores\<close>, \<open>scenario\<close>,
  \<open>recommendation\<close>): no prototype defines them, so the result is \<open>undefined\<close> (\<open>None\<close>)
  unless \<open>v\<close> is an object with that own property.
\<close>

definition get_prop :: "string \<Rightarrow> json \<Rightarrow> json option" where
  "get_prop k v = (case v of JObject ms \<Rightarrow> map_of ms k | _ \<Rightarrow> None)"

text \<open>\<open>v && typeof v === 'object'\<close>: arrays are objects, \<open>null\<close> is falsy.\<close>

definition is_object :: "json \<Rightarrow> bool" where
  "is_object v = (case v of JArray _ \<Rightarrow> True | JObject _ \<Rightarrow> True | _ \<Rightarrow> False)"

text \<open>
  \<open>String(v)\<close>. The first argument renders a number literal as \<open>Number.prototype.toString\<close>
  does (floating point, a parameter here). An array is joined with commas, \<open>null\<close>
  elements giving the empty string. An object is \<open>[object Object]\<close>; when it has an own
  property \<open>toString\<close> (never callable in parsed JSON) the conversion to a primitive
  raises a \<open>TypeError\<close>, which is \<open>None\<close> here.
\<close>

fun js_String :: "(string \<Rightarrow> string) \<Rightarrow> json \<Rightarrow> string option"
  and js_join :: "(string \<Rightarrow> string) \<Rightarrow> json list \<Rightarrow> string option" where
  "js_String ns JNull = Some ''null''"
| "js_String ns (JBool b) = Some (if b then ''true'' else ''false'')"
| "js_String ns (JNumber n) = Some (ns n)"
| "js_String ns (JString s) = Some s"
| "js_String ns (JArray xs) = js_join ns xs"
| "js_String ns (JObject ms) =
     (if ''toString'' \<in> set (map fst ms) then None else Some ''[object Object]'')"
| "js_join ns [] = Some []"
| "js_join ns (x # xs) =
     (case (if x = JNull then Some [] else js_String ns x) of
        None \<Rightarrow> None
      | Some s \<Rightarrow>
          (if xs = [] then Some s
           else (case js_join ns xs of None \<Rightarrow> None | Some r \<Rightarrow> Some (s @ '','' @ r))))"

text \<open>\<open>Object.entries\<close>: the own properties of an object, the indexed elements of an array.\<close>

definition Object_entries :: "json \<Rightarrow> (string \<times> json) list" where
  "Object_entries v =
     (case v of
        JObject ms \<Rightarrow> ms
      | JArray xs \<Rightarrow> zip (map show_nat [0 ..< length xs]) xs
      | _ \<Rightarrow> [])"

section \<open>Response normalizer\<close>

record OptionAnalysis =
  name :: string
  pros :: "string list"
  cons :: "string list"
  scores :: "(string \<times> string) list"

record TradeOff =
  scenario :: string
  recommendation :: string

record NormalizedComparisonResult =
  options :: "OptionAnalysis list"
  tradeOffs :: "TradeOff list"

text \<open>
  One constructor per \<open>throw new NormalizationError(...)\<close> of the normalizer, with the
  data its message interpolates.
\<close>

datatype norm_failure =
    EmptyResponse
  | ParseFailure
  | NotAnObject
  | MissingOptions
  | EmptyOptions
  | OptionNotObject nat
  | OptionMissingName nat
  | OptionMissingPros string
  | OptionMissingCons string

datatype js_error = NormalizationError norm_failure | TypeError

definition fence :: string where
  "fence = ''```''"

text \<open>
  The first capture group of the leftmost match of \<open>/```(?:json)?\s*([\s\S]*?)```/\<close>:
  after the first fence an optional \<open>json\<close> and white space are skipped, and the lazy
  group ends at the next fence.
\<close>

definition fenced_block :: "string \<Rightarrow> string option" where
  "fenced_block raw =
     (case split_at fence raw of
        None \<Rightarrow> None
      | Some (pre, rest) \<Rightarrow>
          (let rest1 = (if take 4 rest = ''json'' then drop 4 rest else rest);
               rest2 = dropWhile is_space rest1
           in case split_at fence rest2 of
                None \<Rightarrow> None
              | Some (inner, post) \<Rightarrow> Some inner))"

text \<open>
  The leftmost match of the greedy \<open>/\{[\s\S]*\}/\<close>: from the first opening brace to the
  last closing brace after it.
\<close>

definition brace_span :: "string \<Rightarrow> string option" where
  "brace_span raw =
     (let s = dropWhile (\<lambda>c. c \<noteq> CHR ''{'') raw;
          t = rev (dropWhile (\<lambda>c. c \<noteq> CHR ''}'') (rev s))
      in if t = [] then None else Some t)"

definition extractJson :: "string \<Rightarrow> string" where
  "extractJson raw =
     (case fenced_block raw of
        Some inner \<Rightarrow> trim inner
      | None \<Rightarrow> (case brace_span raw of Some m \<Rightarrow> m | None \<Rightarrow> trim raw))"

text \<open>\<open>arr.filter(p => typeof p === 'string' && p.trim() !== '')\<close>\<close>

fun nonblank_strings :: "json list \<Rightarrow> string list" where
  "nonblank_strings [] = []"
| "nonblank_strings (x # xs) =
     (case x of
        JString s \<Rightarrow> (if trim s \<noteq> [] then s # nonblank_strings xs else nonblank_strings xs)
      | _ \<Rightarrow> nonblank_strings xs)"

text \<open>
  \<open>acc[key] = value\<close> with a string value on an object literal: the key \<open>__proto__\<close> reaches
  the setter of \<open>Object.prototype\<close>, which ignores a string, so no property is created.
\<close>

definition assign :: "string \<Rightarrow> string \<Rightarrow> (string \<times> string) list \<Rightarrow> (string \<times> string) list" where
  "assign key v acc = (if key = ''__proto__'' then acc else set_prop key v acc)"

text \<open>The \<open>reduce\<close> over the entries of \<open>scores\<close>.\<close>

fun copy_scores ::
  "(string \<Rightarrow> string) \<Rightarrow> (string \<times> json) list \<Rightarrow> (string \<times> string) list
     \<Rightarrow> js_error + (string \<times> string) list" where
  "copy_scores ns [] acc = Inr acc"
| "copy_scores ns ((key, v) # es) acc =
     (case v of
        JString s \<Rightarrow> copy_scores ns es (assign key s acc)
      | JNull \<Rightarrow> copy_scores ns es acc
      | _ \<Rightarrow>
          (case js_String ns v of
             None \<Rightarrow> Inl TypeError
           | Some s \<Rightarrow> copy_scores ns es (assign key s acc)))"

definition validateOption :: "(string \<Rightarrow> string) \<Rightarrow> json \<Rightarrow> nat \<Rightarrow> js_error + OptionAnalysis" where
  "validateOption ns opt index =
     (if \<not> is_object opt then Inl (NormalizationError (OptionNotObject index))
      else case get_prop ''name'' opt of
        Some (JString nm) \<Rightarrow>
          (if trim nm = [] then Inl (NormalizationError (OptionMissingName index))
           else case get_prop ''pros'' opt of
             Some (JArray ps) \<Rightarrow>
               (case get_prop ''cons'' opt of
                  Some (JArray cs) \<Rightarrow>
                    (case (case get_prop ''scores'' opt of
                             Some sc \<Rightarrow>
                               (if is_object sc then copy_scores ns (Object_entries sc) []
                                else Inr [])
                           | None \<Rightarrow> Inr []) of
                       Inl e \<Rightarrow> Inl e
                     | Inr sc \<Rightarrow>
                         Inr \<lparr>name = trim nm, pros = nonblank_strings ps,
                              cons = nonblank_strings cs, scores = sc\<rparr>)
                | _ \<Rightarrow> Inl (NormalizationError (OptionMissingCons nm)))
           | _ \<Rightarrow> Inl (NormalizationError (OptionMissingPros nm)))
      | _ \<Rightarrow> Inl (NormalizationError (OptionMissingName index)))"

text \<open>The \<open>console.warn\<close> notes of a skipped entry are not modelled.\<close>

definition validateTradeOff :: "json \<Rightarrow> TradeOff option" where
  "validateTradeOff t =
     (if \<not> is_object t then None
      else case get_prop ''scenario'' t of
        Some (JString sc) \<Rightarrow>
          (if trim sc = [] then None
           else case get_prop ''recommendation'' t of
             Some (JString rc) \<Rightarrow>
               (if trim rc = [] then None
                else Some \<lparr>scenario = trim sc, recommendation = trim rc\<rparr>)
           | _ \<Rightarrow> None)
      | _ \<Rightarrow> None)"

text \<open>\<open>response.options.map((opt, index) => validateOption(opt, index))\<close>: the first throw ends it.\<close>

fun validate_options :: "(string \<Rightarrow> string) \<Rightarrow> nat \<Rightarrow> json list \<Rightarrow> js_error + OptionAnalysis list" where
  "validate_options ns i [] = Inr []"
| "validate_options ns i (x # xs) =
     (case validateOption ns x i of
        Inl e \<Rightarrow> Inl e
      | Inr a \<Rightarrow>
          (case validate_options ns (Suc i) xs of
             Inl e \<Rightarrow> Inl e
           | Inr as \<Rightarrow> Inr (a # as)))"

text \<open>\<open>.map(validateTradeOff).filter(to => to !== null)\<close>\<close>

fun valid_tradeOffs :: "json list \<Rightarrow> TradeOff list" where
  "valid_tradeOffs [] = []"
| "valid_tradeOffs (t # ts) =
     (case validateTradeOff t of
        None \<Rightarrow> valid_tradeOffs ts
      | Some r \<Rightarrow> r # valid_tradeOffs ts)"

definition normalize_parsed :: "(string \<Rightarrow> string) \<Rightarrow> json \<Rightarrow> js_error + NormalizedComparisonResult" where
  "normalize_parsed ns parsed =
     (if \<not> is_object parsed then Inl (NormalizationError NotAnObject)
      else case get_prop ''options'' parsed of
        Some (JArray opts) \<Rightarrow>
          (if opts = [] then Inl (NormalizationError EmptyOptions)
           else case validate_options ns 0 opts of
             Inl e \<Rightarrow> Inl e
           | Inr os \<Rightarrow>
               Inr \<lparr>options = os,
                    tradeOffs = (case get_prop ''tradeOffs'' parsed of
                                   Some (JArray ts) \<Rightarrow> valid_tradeOffs ts
                                 | _ \<Rightarrow> [])\<rparr>)
      | _ \<Rightarrow> Inl (NormalizationError MissingOptions))"

definition normalizeGrokResponse :: "(string \<Rightarrow> string) \<Rightarrow> string \<Rightarrow> js_error + NormalizedComparisonResult" where
  "normalizeGrokResponse ns raw =
     (if raw = [] then Inl (NormalizationError EmptyResponse)
      else case JSON_parse (extractJson raw) of
        None \<Rightarrow> Inl (NormalizationError ParseFailure)
      | Some parsed \<Rightarrow> normalize_parsed ns parsed)"

text \<open>
  The shape \<open>validateOption\<close> requires of an entry of \<open>options\<close>, and the case in which
  the copy of its \<open>scores\<close> raises.
\<close>

definition option_shape :: "json \<Rightarrow> bool" where
  "option_shape x =
     (case (get_prop ''name'' x, get_prop ''pros'' x, get_prop ''cons'' x) of
        (Some (JString nm), Some (JArray ps), Some (JArray cs)) \<Rightarrow> trim nm \<noteq> []
      | _ \<Rightarrow> False)"

definition scores_raise :: "(string \<Rightarrow> string) \<Rightarrow> json \<Rightarrow> bool" where
  "scores_raise ns x =
     (case get_prop ''scores'' x of
        Some sc \<Rightarrow> is_object sc \<and> isl (copy_scores ns (Object_entries sc) [])
      | None \<Rightarrow> False)"

section \<open>Prompt builder\<close>

definition newline :: string where
  "newline = [CHR 0x0A]"

text \<open>\<open>Array.prototype.join\<close> on strings.\<close>

fun join :: "string \<Rightarrow> string list \<Rightarrow> string" where
  "join sep [] = []"
| "join sep [x] = x"
| "join sep (x # y # ys) = x @ sep @ join sep (y # ys)"

text \<open>\<open>xs.map((x, i) => `${i + 1}. ${x}`)\<close>\<close>

definition numbered :: "string list \<Rightarrow> string list" where
  "numbered xs = map (\<lambda>(i, x). show_nat (i + 1) @ ''. '' @ x) (zip [0 ..< length xs] xs)"

text \<open>The template literal, line by line; the two lists stand on lines of their own.\<close>

definition buildComparisonPrompt :: "string list \<Rightarrow> string list \<Rightarrow> string" where
  \<open>buildComparisonPrompt opts constraints =
     (let optionsList = join newline (numbered opts);
          constraintsList = join newline (numbered constraints)
      in join newline
        [''You are a neutral technical referee. Compare the following options without declaring a winner.'',
         '''',
         ''OPTIONS TO COMPARE:'',
         optionsList,
         '''',
         ''CONSTRAINTS TO EVALUATE:'',
         constraintsList,
         '''',
         ''INSTRUCTIONS:'',
         ''1. Analyze each option against ALL constraints'',
         ''2. List specific pros and cons for each option'',
         ''3. DO NOT declare a "best" or "winner" - remain completely neutral'',
         ''4. Provide trade-off scenarios: "If you prioritize X, consider Y because..."'',
         ''5. Be factual and balanced in your analysis'',
         ''6. Score each option against each constraint with a brief explanation'',
         '''',
         ''OUTPUT FORMAT (respond with valid JSON only, no markdown code blocks):'',
         ''{'',
         ''  "options": ['',
         ''    {'',
         ''      "name": "option name",'',
         ''      "pros": ["pro 1", "pro 2"],'',
         ''      "cons": ["con 1", "con 2"],'',
         ''      "scores": {'',
         ''        "constraint1": "rating/explanation",'',
         ''        "constraint2": "rating/explanation"'',
         ''      }'',
         ''    }'',
         ''  ],'',
         ''  "tradeOffs": ['',
         ''    {'',
         ''      "scenario": "When you need...",'',
         ''      "recommendation": "Consider X because..."'',
         ''    }'',
         ''  ]'',
         ''}'',
         '''',
         ''IMPORTANT: '',
         ''- Return ONLY valid JSON, no additional text or markdown formatting'',
         ''- Include ALL options provided in your analysis'',
         ''- Include scores for ALL constraints for each option'',
         ''- Trade-offs should present balanced scenarios, not recommendations for a single option''])\<close>

text \<open>The number of positions of a text at which a pattern occurs.\<close>

fun occurrences :: "string \<Rightarrow> string \<Rightarrow> nat" where
  "occurrences pat [] = (if pat = [] then 1 else 0)"
| "occurrences pat (c # cs) =
     (if take (length pat) (c # cs) = pat then 1 else 0) + occurrences pat cs"

section \<open>Completion client\<close>

definition MAX_RETRIES :: nat where
  "MAX_RETRIES = 3"

definition BASE_DELAY_MS :: nat where
  "BASE_DELAY_MS = 1000"

record GrokApiError =
  message :: string
  statusCode :: "nat option"
  isRetryable :: bool

definition createGrokError :: "string \<Rightarrow> nat option \<Rightarrow> GrokApiError" where
  "createGrokError msg status =
     \<lparr>message = msg, statusCode = status,
      isRetryable = (case status of None \<Rightarrow> False | Some s \<Rightarrow> s = 429 \<or> 500 \<le> s)\<rparr>"

text \<open>The environment variable \<open>GROQ_API_KEY\<close>: unset, or a string (the empty one is falsy).\<close>

definition getApiKey :: "string option \<Rightarrow> GrokApiError + string" where
  "getApiKey env_key =
     (case env_key of
        None \<Rightarrow> Inl (createGrokError ''GROQ_API_KEY environment variable is not configured'' None)
      | Some k \<Rightarrow>
          (if k = [] then
             Inl (createGrokError ''GROQ_API_KEY environment variable is not configured'' None)
           else Inr k))"

text \<open>
  The payload of a successful response, with the type the source gives it:
  \<open>{choices?: Array<{message?: {content?: string}}>}\<close>.
\<close>

datatype chat_message = ChatMessage (content: "string option")

datatype choice = Choice (choice_message: "chat_message option")

datatype completion = Completion (choices: "choice list option")

text \<open>
  What one call of the endpoint brings: \<open>fetch\<close> (or reading the body) rejects with an
  error that is not a \<open>GrokApiError\<close>; a response with \<open>ok\<close> false, its status and body
  text; or a response with \<open>ok\<close> true and its decoded payload.
\<close>

datatype outcome =
    Rejected string
  | ErrorResponse nat string
  | OkResponse completion

datatype event = Fetch nat | Delay nat

datatype thrown = GrokError GrokApiError | OtherError string

datatype 'e step = Return string | RetryAfter nat | Throw 'e

definition backoff :: "nat \<Rightarrow> nat" where
  "backoff attempt = BASE_DELAY_MS * 2 ^ (attempt - 1)"

text \<open>The \<open>try\<close> block of one iteration.\<close>

definition try_block :: "outcome \<Rightarrow> nat \<Rightarrow> nat \<Rightarrow> thrown step" where
  "try_block out attempt maxRetries =
     (case out of
        Rejected msg \<Rightarrow> Throw (OtherError msg)
      | ErrorResponse status errorBody \<Rightarrow>
          (let error = createGrokError
                 (''Groq API error: '' @ show_nat status @ '' - '' @ errorBody) (Some status)
           in if \<not> isRetryable error \<or> attempt = maxRetries then Throw (GrokError error)
              else RetryAfter (backoff attempt))
      | OkResponse data \<Rightarrow>
          (case choices data of
             Some (c # cs) \<Rightarrow>
               (case choice_message c of
                  Some m \<Rightarrow> Return (case content m of None \<Rightarrow> [] | Some s \<Rightarrow> s)
                | None \<Rightarrow>
                    Throw (GrokError (createGrokError ''Invalid response structure from Groq API'' None)))
           | _ \<Rightarrow> Throw (GrokError (createGrokError ''Invalid response structure from Groq API'' None))))"

text \<open>The \<open>catch\<close> block: what it rethrows leaves the function.\<close>

definition catch_block :: "thrown \<Rightarrow> nat \<Rightarrow> nat \<Rightarrow> GrokApiError step" where
  "catch_block err attempt maxRetries =
     (case err of
        GrokError e \<Rightarrow>
          (if \<not> isRetryable e \<or> attempt = maxRetries then Throw e
           else RetryAfter (backoff attempt))
      | OtherError msg \<Rightarrow>
          (if attempt = maxRetries then
             Throw (createGrokError
               (''Groq API request failed after '' @ show_nat maxRetries @ '' attempts: '' @ msg) None)
           else RetryAfter (backoff attempt)))"

definition run_attempt :: "outcome \<Rightarrow> nat \<Rightarrow> nat \<Rightarrow> GrokApiError step" where
  "run_attempt out attempt maxRetries =
     (case try_block out attempt maxRetries of
        Return s \<Rightarrow> Return s
      | RetryAfter ms \<Rightarrow> RetryAfter ms
      | Throw err \<Rightarrow> catch_block err attempt maxRetries)"

text \<open>
  The loop \<open>for (attempt = 1; attempt <= maxRetries; attempt++)\<close>. The endpoint maps the
  number of an attempt to what that call brings. The result carries the trace of the
  calls and waits.
\<close>

function retry_loop :: "(nat \<Rightarrow> outcome) \<Rightarrow> nat \<Rightarrow> nat \<Rightarrow> event list \<times> (GrokApiError + string)" where
  "retry_loop endpoint maxRetries attempt =
     (if attempt \<le> maxRetries then
        (case run_attempt (endpoint attempt) attempt maxRetries of
           Return s \<Rightarrow> ([Fetch attempt], Inr s)
         | Throw e \<Rightarrow> ([Fetch attempt], Inl e)
         | RetryAfter ms \<Rightarrow>
             (case retry_loop endpoint maxRetries (attempt + 1) of
                (evs, r) \<Rightarrow> (Fetch attempt # Delay ms # evs, r)))
      else ([], Inl (createGrokError ''Unexpected error in retry logic'' None)))"
  by pat_completeness auto
termination
  by (relation "measure (\<lambda>(endpoint, maxRetries, attempt). maxRetries + 1 - attempt)") auto

declare retry_loop.simps [simp del]

definition callGrokWithRetry ::
  "string option \<Rightarrow> (nat \<Rightarrow> outcome) \<Rightarrow> nat \<Rightarrow> event list \<times> (GrokApiError + string)" where
  "callGrokWithRetry env_key endpoint maxRetries =
     (case getApiKey env_key of
        Inl e \<Rightarrow> ([], Inl e)
      | Inr apiKey \<Rightarrow> retry_loop endpoint maxRetries 1)"

text \<open>An outcome after which the client tries again, unless it was the last attempt.\<close>

definition retryable :: "outcome \<Rightarrow> bool" where
  "retryable out =
     (case out of
        Rejected msg \<Rightarrow> True
      | ErrorResponse status body \<Rightarrow> status = 429 \<or> 500 \<le> status
      | OkResponse data \<Rightarrow> False)"

text \<open>The calls and waits of attempts \<open>a, a + 1, ..., b - 1\<close> that all end in a retry.\<close>

definition retries :: "nat \<Rightarrow> nat \<Rightarrow> event list" where
  "retries a b = concat (map (\<lambda>k. [Fetch k, Delay (backoff k)]) [a ..< b])"

definition is_fetch :: "event \<Rightarrow> bool" where
  "is_fetch ev = (case ev of Fetch k \<Rightarrow> True | Delay ms \<Rightarrow> False)"

section \<open>Comparison service\<close>







text \<open>
  What the collaborators of one request do: the API key of the process, the endpoint
  (from the prompt and the number of the attempt to the outcome of that call), the
  identifier the first insert returns (\<open>None\<close> when that query rejects), whether the
  second insert succeeds, the rendering of number literals, and the clock.
\<close>

record environment =
  env_api_key :: "string option"
  env_endpoint :: "string \<Rightarrow> nat \<Rightarrow> outcome"
  env_new_id :: "string option"
  env_result_stored :: bool
  env_number_text :: "string \<Rightarrow> string"
  env_now :: string




section \<open>\<open>JSON.stringify\<close> and the stored form of a result\<close>

definition hex_digit :: "nat \<Rightarrow> char" where
  "hex_digit d = (if d < 10 then char_of (48 + d) else char_of (87 + d))"

text \<open>
  \<open>QuoteJSONString\<close>, one code unit at a time: the quote, the backslash and the control
  characters are escaped, every other code unit of the model stands for itself.
\<close>

definition escape_char :: "char \<Rightarrow> string" where
  "escape_char c =
     (if c = CHR 0x08 then [CHR 0x5C, CHR ''b'']
      else if c = CHR 0x09 then [CHR 0x5C, CHR ''t'']
      else if c = CHR 0x0A then [CHR 0x5C, CHR ''n'']
      else if c = CHR 0x0C then [CHR 0x5C, CHR ''f'']
      else if c = CHR 0x0D then [CHR 0x5C, CHR ''r'']
      else if c = CHR 0x22 then [CHR 0x5C, CHR 0x22]
      else if c = CHR 0x5C then [CHR 0x5C, CHR 0x5C]
      else if (of_char c :: nat) < 32 then
        [CHR 0x5C, CHR ''u'', CHR ''0'', CHR ''0'',
         hex_digit (of_char c div 16), hex_digit (of_char c mod 16)]
      else [c])"

definition JSON_quote :: "string \<Rightarrow> string" where
  "JSON_quote s = [CHR 0x22] @ concat (map escape_char s) @ [CHR 0x22]"

text \<open>
  \<open>JSON.stringify(v)\<close> without indentation. The first argument renders a number, as for
  \<open>js_String\<close>.
\<close>

fun JSON_stringify :: "(string \<Rightarrow> string) \<Rightarrow> json \<Rightarrow> string"
  and stringify_elements :: "(string \<Rightarrow> string) \<Rightarrow> json list \<Rightarrow> string"
  and stringify_members :: "(string \<Rightarrow> string) \<Rightarrow> (string \<times> json) list \<Rightarrow> string" where
  "JSON_stringify ns JNull = ''null''"
| "JSON_stringify ns (JBool b) = (if b then ''true'' else ''false'')"
| "JSON_stringify ns (JNumber n) = ns n"
| "JSON_stringify ns (JString s) = JSON_quote s"
| "JSON_stringify ns (JArray xs) = ''['' @ stringify_elements ns xs @ '']''"
| "JSON_stringify ns (JObject ms) = ''{'' @ stringify_members ns ms @ ''}''"
| "stringify_elements ns [] = []"
| "stringify_elements ns (x # xs) =
     JSON_stringify ns x @ (if xs = [] then [] else '','' @ stringify_elements ns xs)"
| "stringify_members ns [] = []"
| "stringify_members ns ((k, v) # ms) =
     JSON_quote k @ '':'' @ JSON_stringify ns v @
     (if ms = [] then [] else '','' @ stringify_members ns ms)"

text \<open>The object that \<open>JSON.stringify(result)\<close> walks, property by property.\<close>

definition option_json :: "OptionAnalysis \<Rightarrow> json" where
  "option_json a =
     JObject [(''name'', JString (name a)),
              (''pros'', JArray (map JString (pros a))),
              (''cons'', JArray (map JString (cons a))),
              (''scores'', JObject (map (\<lambda>(k, v). (k, JString v)) (scores a)))]"

definition tradeOff_json :: "TradeOff \<Rightarrow> json" where
  "tradeOff_json t =
     JObject [(''scenario'', JString (scenario t)), (''recommendation'', JString (recommendation t))]"

definition result_json :: "NormalizedComparisonResult \<Rightarrow> json" where
  "result_json r =
     JObject [(''options'', JArray (map option_json (options r))),
              (''tradeOffs'', JArray (map tradeOff_json (tradeOffs r)))]"

definition serialize :: "NormalizedComparisonResult \<Rightarrow> string" where
  "serialize r = JSON_stringify (\<lambda>n. n) (result_json r)"

text \<open>A well-formed result, as the data model describes it; the keys of \<open>scores\<close> are distinct.\<close>

definition trimmed_nonempty :: "string \<Rightarrow> bool" where
  "trimmed_nonempty s = (s \<noteq> [] \<and> trim s = s)"

definition well_formed_option :: "OptionAnalysis \<Rightarrow> bool" where
  "well_formed_option a =
     (trimmed_nonempty (name a) \<and> list_all trimmed_nonempty (pros a) \<and>
      list_all trimmed_nonempty (cons a) \<and> distinct (map fst (scores a)))"

definition well_formed_tradeOff :: "TradeOff \<Rightarrow> bool" where
  "well_formed_tradeOff t = (trimmed_nonempty (scenario t) \<and> trimmed_nonempty (recommendation t))"

definition well_formed :: "NormalizedComparisonResult \<Rightarrow> bool" where
  "well_formed r =
     (options r \<noteq> [] \<and> list_all well_formed_option (options r) \<and>
      list_all well_formed_tradeOff (tradeOffs r))"

text \<open>
  The tokens of the text of a value. \<open>textual\<close> holds of a value built from strings,
  arrays and objects only, the keys of each object being distinct: the values that
  \<open>result_json\<close> builds.
\<close>

fun tokens :: "json \<Rightarrow> token list"
  and tokens_elements :: "json list \<Rightarrow> token list"
  and tokens_members :: "(string \<times> json) list \<Rightarrow> token list" where
  "tokens JNull = [TNull]"
| "tokens (JBool b) = [if b then TTrue else TFalse]"
| "tokens (JNumber n) = [TNumber n]"
| "tokens (JString s) = [TString s]"
| "tokens (JArray xs) = TLBracket # tokens_elements xs @ [TRBracket]"
| "tokens (JObject ms) = TLBrace # tokens_members ms @ [TRBrace]"
| "tokens_elements [] = []"
| "tokens_elements (x # xs) = tokens x @ (if xs = [] then [] else TComma # tokens_elements xs)"
| "tokens_members [] = []"
| "tokens_members ((k, v) # ms) =
     TString k # TColon # tokens v @ (if ms = [] then [] else TComma # tokens_members ms)"

fun textual :: "json \<Rightarrow> bool"
  and textual_elements :: "json list \<Rightarrow> bool"
  and textual_members :: "(string \<times> json) list \<Rightarrow> bool" where
  "textual JNull = False"
| "textual (JBool b) = False"
| "textual (JNumber n) = False"
| "textual (JString s) = True"
| "textual (JArray xs) = textual_elements xs"
| "textual (JObject ms) = (distinct (map fst ms) \<and> textual_members ms)"
| "textual_elements [] = True"
| "textual_elements (x # xs) = (textual x \<and> textual_elements xs)"
| "textual_members [] = True"
| "textual_members ((k, v) # ms) = (textual v \<and> textual_members ms)"

section \<open>Properties of the response normalizer\<close>

subsection \<open>Trade-offs\<close>

lemma valid_tradeOffs_map_filter: "valid_tradeOffs ts = List.map_filter validateTradeOff ts"
  by (induction ts) (simp_all add: List.map_filter_simps split: option.splits)

lemma validateTradeOff_Some:
  "validateTradeOff t = Some x \<longleftrightarrow>
     (\<exists>sc rc. get_prop ''scenario'' t = Some (JString sc) \<and> trim sc \<noteq> [] \<and>
        get_prop ''recommendation'' t = Some (JString rc) \<and> trim rc \<noteq> [] \<and>
        x = \<lparr>scenario = trim sc, recommendation = trim rc\<rparr>)"
  by (cases t) (auto simp: validateTradeOff_def is_object_def get_prop_def split: option.splits json.splits)

text \<open>
  Claim C5. Whenever the \<open>options\<close> array of the parsed object is non-empty and every
  option validates, normalization succeeds whatever the \<open>tradeOffs\<close> field holds: when
  it is an array, the result carries the entries that validate, in their original
  order (\<open>List.map_filter\<close>), every other entry being dropped; when it is missing or
  not an array, the result carries no trade-off. An entry validates exactly when it has
  string properties \<open>scenario\<close> and \<open>recommendation\<close> that are not blank, and it is
  kept with both trimmed.
\<close>

theorem tradeOffs_degrade:
  assumes "raw \<noteq> []"
    and "JSON_parse (extractJson raw) = Some (JObject ms)"
    and "map_of ms ''options'' = Some (JArray opts)"
    and "opts \<noteq> []"
    and "validate_options ns 0 opts = Inr os"
  shows "normalizeGrokResponse ns raw =
           Inr \<lparr>options = os,
                tradeOffs = (case map_of ms ''tradeOffs'' of
                               Some (JArray ts) \<Rightarrow> List.map_filter validateTradeOff ts
                             | _ \<Rightarrow> [])\<rparr>
         \<and> (\<forall>t x. validateTradeOff t = Some x \<longleftrightarrow>
               (\<exists>sc rc. get_prop ''scenario'' t = Some (JString sc) \<and> trim sc \<noteq> [] \<and>
                  get_prop ''recommendation'' t = Some (JString rc) \<and> trim rc \<noteq> [] \<and>
                  x = \<lparr>scenario = trim sc, recommendation = trim rc\<rparr>))"
proof -
  have "normalize_parsed ns (JObject ms) =
          Inr \<lparr>options = os,
               tradeOffs = (case map_of ms ''tradeOffs'' of
                              Some (JArray ts) \<Rightarrow> List.map_filter validateTradeOff ts
                            | _ \<Rightarrow> [])\<rparr>"
    using assms(3-5)
    by (simp add: normalize_parsed_def is_object_def get_prop_def valid_tradeOffs_map_filter
        split: option.splits json.splits)
  with assms(1,2) show ?thesis
    by (simp add: normalizeGrokResponse_def validateTradeOff_Some)
qed

text \<open>
  The example of the specification: valid options and the single trade-off
  \<open>{scenario: "x"}\<close>, which has no recommendation.
\<close>

theorem tradeOffs_degrade_witness:
  \<open>normalizeGrokResponse (\<lambda>n. n)
      ''{"options":[{"name":"A","pros":[],"cons":[]}],"tradeOffs":[{"scenario":"x"}]}'' =
    Inr \<lparr>options = [\<lparr>name = ''A'', pros = [], cons = [], scores = []\<rparr>], tradeOffs = []\<rparr>\<close>
proof -
  let ?raw = \<open>''{"options":[{"name":"A","pros":[],"cons":[]}],"tradeOffs":[{"scenario":"x"}]}''\<close>
  let ?opt = "JObject [(''name'', JString ''A''), (''pros'', JArray []), (''cons'', JArray [])]"
  let ?ms = "[(''options'', JArray [?opt]), (''tradeOffs'', JArray [JObject [(''scenario'', JString ''x'')]])]"
  have h1: "?raw \<noteq> []" by simp
  have h2: "JSON_parse (extractJson ?raw) = Some (JObject ?ms)" by code_simp
  have h3: "map_of ?ms ''options'' = Some (JArray [?opt])" by simp
  have h4: "[?opt] \<noteq> []" by simp
  have h5: "validate_options (\<lambda>n. n) 0 [?opt] = Inr [\<lparr>name = ''A'', pros = [], cons = [], scores = []\<rparr>]"
    by code_simp
  have h6: "List.map_filter validateTradeOff [JObject [(''scenario'', JString ''x'')]] = []"
    by code_simp
  from tradeOffs_degrade [OF h1 h2 h3 h4 h5] h6 show ?thesis by simp
qed

subsection \<open>Extraction\<close>


lemma take_eq_prefix: "take (length pat) s = pat \<longleftrightarrow> (\<exists>b. s = pat @ b)"
  by (metis append_eq_conv_conj append_take_drop_id)

lemma split_at_Some: "split_at pat s = Some (a, b) \<Longrightarrow> s = a @ pat @ b"
proof (induction s arbitrary: a b)
  case Nil
  then show ?case by (simp split: if_splits)
next
  case (Cons c cs)
  show ?case
  proof (cases "take (length pat) (c # cs) = pat")
    case True
    with Cons.prems have "a = []" "b = drop (length pat) (c # cs)" by simp_all
    with True show ?thesis by (metis append_Nil append_take_drop_id)
  next
    case False
    with Cons.prems obtain a' where "split_at pat cs = Some (a', b)" "a = c # a'"
      by (auto split: option.splits)
    with Cons.IH show ?thesis by simp
  qed
qed

lemma split_at_first:
  "split_at pat s = Some (a, b) \<Longrightarrow> s = a' @ pat @ b' \<Longrightarrow> length a \<le> length a'"
proof (induction s arbitrary: a b a')
  case Nil
  then show ?case by (simp split: if_splits)
next
  case (Cons c cs)
  show ?case
  proof (cases "take (length pat) (c # cs) = pat")
    case True
    with Cons.prems(1) have "a = []" by simp
    then show ?thesis by simp
  next
    case False
    with Cons.prems(1) obtain a0 where r: "split_at pat cs = Some (a0, b)" "a = c # a0"
      by (auto split: option.splits)
    from False Cons.prems(2) have "a' \<noteq> []"
      by (auto simp: take_eq_prefix)
    then obtain a1 where a1: "a' = c # a1" using Cons.prems(2) by (cases a') auto
    with Cons.prems(2) have "cs = a1 @ pat @ b'" by simp
    from Cons.IH [OF r(1) this] r(2) a1 show ?thesis by simp
  qed
qed

lemma split_at_None: "split_at pat s = None \<longleftrightarrow> \<not> (\<exists>a b. s = a @ pat @ b)"
proof (induction s)
  case Nil
  then show ?case by auto
next
  case (Cons c cs)
  show ?case
  proof (cases "take (length pat) (c # cs) = pat")
    case True
    then have "c # cs = [] @ pat @ drop (length pat) (c # cs)"
      by (metis append_Nil append_take_drop_id)
    with True show ?thesis by (metis option.distinct(1) split_at.simps(2))
  next
    case False
    have "(\<exists>a b. c # cs = a @ pat @ b) \<longleftrightarrow> (\<exists>a b. cs = a @ pat @ b)"
    proof
      assume "\<exists>a b. c # cs = a @ pat @ b"
      then obtain a b where ab: "c # cs = a @ pat @ b" by blast
      with False have "a \<noteq> []" by (auto simp: take_eq_prefix)
      then obtain a1 where "a = c # a1" using ab by (cases a) auto
      with ab show "\<exists>a b. cs = a @ pat @ b" by auto
    next
      assume "\<exists>a b. cs = a @ pat @ b"
      then obtain a b where "cs = a @ pat @ b" by blast
      then have "c # cs = (c # a) @ pat @ b" by simp
      then show "\<exists>a b. c # cs = a @ pat @ b" by blast
    qed
    with False Cons.IH show ?thesis by (auto split: option.splits)
  qed
qed

lemma skip_no_backtick:
  "p @ t = a @ fence @ b \<Longrightarrow> CHR 0x60 \<notin> set p \<Longrightarrow> \<exists>a'. a = p @ a' \<and> t = a' @ fence @ b"
proof (induction p arbitrary: a)
  case Nil
  then show ?case by simp
next
  case (Cons x p)
  from Cons.prems have "a \<noteq> []" by (auto simp: fence_def)
  then obtain a1 where a1: "a = x # a1" using Cons.prems(1) by (cases a) auto
  with Cons.prems have "p @ t = a1 @ fence @ b" "CHR 0x60 \<notin> set p" by auto
  from Cons.IH [OF this] a1 show ?case by auto
qed

lemma trim_drop_spaces: "\<forall>c\<in>set ws. is_space c \<Longrightarrow> trim (ws @ s) = trim s"
  by (simp add: trim_def dropWhile_append2)

lemma space_not_backtick: "is_space c \<Longrightarrow> c \<noteq> CHR 0x60"
  by (auto simp: is_space_def)

lemma fenced_block_Some:
  assumes "fenced_block raw = Some inner"
  shows "\<exists>pre tag ws post.
           raw = pre @ fence @ tag @ ws @ inner @ fence @ post
         \<and> (\<forall>a b. raw = a @ fence @ b \<longrightarrow> length pre \<le> length a)
         \<and> (tag = ''json'' \<or> tag = [] \<and> take 4 (ws @ inner @ fence @ post) \<noteq> ''json'')
         \<and> (\<forall>c\<in>set ws. is_space c)
         \<and> (\<forall>a b. ws @ inner @ fence @ post = a @ fence @ b \<longrightarrow> length (ws @ inner) \<le> length a)"
proof -
  from assms obtain pre rest where sp1: "split_at fence raw = Some (pre, rest)"
    by (auto simp: fenced_block_def split: option.splits)
  define tag where "tag = (if take 4 rest = ''json'' then ''json'' else [])"
  define rest1 where "rest1 = (if take 4 rest = ''json'' then drop 4 rest else rest)"
  define ws where "ws = takeWhile is_space rest1"
  define rest2 where "rest2 = dropWhile is_space rest1"
  from assms sp1 obtain post where sp2: "split_at fence rest2 = Some (inner, post)"
    by (auto simp: fenced_block_def rest2_def rest1_def Let_def split: option.splits)
  have rest: "rest = tag @ rest1"
  proof (cases "take 4 rest = ''json''")
    case True
    then have "''json'' @ drop 4 rest = rest" by (metis append_take_drop_id)
    with True show ?thesis by (simp add: tag_def rest1_def)
  next
    case False
    then show ?thesis by (simp add: tag_def rest1_def)
  qed
  have rest1: "rest1 = ws @ rest2"
    unfolding ws_def rest2_def by simp
  have rest2: "rest2 = inner @ fence @ post"
    using sp2 by (rule split_at_Some)
  have raw: "raw = pre @ fence @ rest"
    using sp1 by (rule split_at_Some)
  have ws: "\<forall>c\<in>set ws. is_space c"
    unfolding ws_def by (auto dest: set_takeWhileD)
  then have nob: "CHR 0x60 \<notin> set ws"
    using space_not_backtick by blast
  have tag: "tag = ''json'' \<or> tag = [] \<and> take 4 (ws @ inner @ fence @ post) \<noteq> ''json''"
  proof (cases "take 4 rest = ''json''")
    case True
    then show ?thesis by (simp add: tag_def)
  next
    case False
    then have "tag = []" "rest1 = rest" by (simp_all add: tag_def rest1_def)
    with False rest1 rest2 show ?thesis by simp
  qed
  have closing: "length (ws @ inner) \<le> length a" if "ws @ inner @ fence @ post = a @ fence @ b" for a b
  proof -
    from that rest2 have "ws @ rest2 = a @ fence @ b" by simp
    from skip_no_backtick [OF this nob] obtain a' where a': "a = ws @ a'" "rest2 = a' @ fence @ b"
      by blast
    from split_at_first [OF sp2 a'(2)] a'(1) show ?thesis by simp
  qed
  have "raw = pre @ fence @ tag @ ws @ inner @ fence @ post"
    using raw rest rest1 rest2 by simp
  moreover have "\<forall>a b. raw = a @ fence @ b \<longrightarrow> length pre \<le> length a"
    using split_at_first [OF sp1] by blast
  ultimately show ?thesis
    using tag ws closing by blast
qed

lemma fenced_block_None:
  "fenced_block raw = None \<longleftrightarrow> \<not> (\<exists>a b c. raw = a @ fence @ b @ fence @ c)"
proof
  assume none: "fenced_block raw = None"
  show "\<not> (\<exists>a b c. raw = a @ fence @ b @ fence @ c)"
  proof
    assume "\<exists>a b c. raw = a @ fence @ b @ fence @ c"
    then obtain a b c where abc: "raw = a @ fence @ b @ fence @ c" by blast
    then have "split_at fence raw \<noteq> None"
      by (metis split_at_None)
    then obtain pre rest where sp1: "split_at fence raw = Some (pre, rest)" by auto
    have raw: "raw = pre @ fence @ rest"
      using sp1 by (rule split_at_Some)
    have le: "length pre \<le> length a"
      using split_at_first [OF sp1 abc] .
    have "rest = drop (length pre + length fence) raw"
      using raw by simp
    also have "\<dots> = drop (length pre + length fence) (a @ fence) @ b @ fence @ c"
      using le by (simp add: abc)
    finally have r0: "rest = (drop (length pre + length fence) (a @ fence) @ b) @ fence @ c"
      by simp
    define tag where "tag = (if take 4 rest = ''json'' then ''json'' else [])"
    define rest1 where "rest1 = (if take 4 rest = ''json'' then drop 4 rest else rest)"
    have rest: "tag @ rest1 = rest"
    proof (cases "take 4 rest = ''json''")
      case True
      then have "''json'' @ drop 4 rest = rest" by (metis append_take_drop_id)
      with True show ?thesis by (simp add: tag_def rest1_def)
    next
      case False
      then show ?thesis by (simp add: tag_def rest1_def)
    qed
    have "CHR 0x60 \<notin> set tag"
      unfolding tag_def by simp
    from skip_no_backtick [OF rest [unfolded r0] this]
    obtain a1 where r1: "rest1 = a1 @ fence @ c" by blast
    have "takeWhile is_space rest1 @ dropWhile is_space rest1 = a1 @ fence @ c"
      using r1 by simp
    moreover have "CHR 0x60 \<notin> set (takeWhile is_space rest1)"
      using space_not_backtick by (auto dest: set_takeWhileD)
    ultimately obtain a2 where "dropWhile is_space rest1 = a2 @ fence @ c"
      using skip_no_backtick by blast
    then have "split_at fence (dropWhile is_space rest1) \<noteq> None"
      by (metis split_at_None)
    moreover have "fenced_block raw =
        (case split_at fence (dropWhile is_space rest1) of
           None \<Rightarrow> None | Some (inner, post) \<Rightarrow> Some inner)"
      using sp1 by (simp add: fenced_block_def rest1_def Let_def)
    ultimately have "fenced_block raw \<noteq> None"
      by (auto split: option.splits)
    with none show False by simp
  qed
next
  assume no: "\<not> (\<exists>a b c. raw = a @ fence @ b @ fence @ c)"
  show "fenced_block raw = None"
  proof (rule ccontr)
    assume "fenced_block raw \<noteq> None"
    then obtain inner where "fenced_block raw = Some inner" by auto
    from fenced_block_Some [OF this] obtain pre tag ws post where
      "raw = pre @ fence @ tag @ ws @ inner @ fence @ post" by blast
    then have "raw = pre @ fence @ (tag @ ws @ inner) @ fence @ post" by simp
    with no show False by blast
  qed
qed

lemma brace_span_Some:
  assumes "brace_span raw = Some m"
  shows "\<exists>a b c. raw = a @ ''{'' @ b @ ''}'' @ c \<and> CHR ''{'' \<notin> set a \<and> CHR ''}'' \<notin> set c
           \<and> m = ''{'' @ b @ ''}''"
proof -
  define s where "s = dropWhile (\<lambda>c. c \<noteq> CHR ''{'') raw"
  define t where "t = rev (dropWhile (\<lambda>c. c \<noteq> CHR ''}'') (rev s))"
  define A where "A = takeWhile (\<lambda>c. c \<noteq> CHR ''{'') raw"
  define C where "C = rev (takeWhile (\<lambda>c. c \<noteq> CHR ''}'') (rev s))"
  from assms have m: "m = t" and tne: "t \<noteq> []"
    by (auto simp: brace_span_def Let_def s_def t_def split: if_splits)
  have "rev s = takeWhile (\<lambda>c. c \<noteq> CHR ''}'') (rev s) @ dropWhile (\<lambda>c. c \<noteq> CHR ''}'') (rev s)"
    by simp
  then have s: "s = t @ C"
    unfolding t_def C_def by (metis rev_append rev_rev_ident)
  have raw: "raw = A @ s"
    unfolding s_def A_def by simp
  have A: "CHR ''{'' \<notin> set A"
    unfolding A_def by (auto dest: set_takeWhileD)
  have C: "CHR ''}'' \<notin> set C"
    unfolding C_def by (auto dest: set_takeWhileD)
  from tne have dne: "dropWhile (\<lambda>c. c \<noteq> CHR ''}'') (rev s) \<noteq> []"
    unfolding t_def by simp
  have "last t = hd (dropWhile (\<lambda>c. c \<noteq> CHR ''}'') (rev s))"
    unfolding t_def using dne by (simp add: last_rev)
  with hd_dropWhile [OF dne] have last: "last t = CHR ''}''" by simp
  from tne s have sne: "s \<noteq> []" by simp
  then have "hd s = CHR ''{''"
    unfolding s_def using hd_dropWhile [of "\<lambda>c. c \<noteq> CHR ''{''" raw] by simp
  with s tne have hd: "hd t = CHR ''{''" by simp
  from tne hd obtain t' where t': "t = CHR ''{'' # t'" by (cases t) auto
  with last have "t' \<noteq> []" by auto
  with t' last have "t' = butlast t' @ ''}''"
    by (metis append_butlast_last_id last_ConsR)
  with t' have "t = ''{'' @ butlast t' @ ''}''" by simp
  with raw s m A C show ?thesis
    by (metis append.assoc)
qed

lemma brace_span_None:
  "brace_span raw = None \<longleftrightarrow> \<not> (\<exists>a b c. raw = a @ ''{'' @ b @ ''}'' @ c)"
proof
  assume none: "brace_span raw = None"
  show "\<not> (\<exists>a b c. raw = a @ ''{'' @ b @ ''}'' @ c)"
  proof
    assume "\<exists>a b c. raw = a @ ''{'' @ b @ ''}'' @ c"
    then obtain a b c where abc: "raw = a @ ''{'' @ b @ ''}'' @ c" by blast
    define s where "s = dropWhile (\<lambda>c. c \<noteq> CHR ''{'') raw"
    have "CHR ''}'' \<in> set s"
    proof (cases "\<forall>x\<in>set a. x \<noteq> CHR ''{''")
      case True
      then have "s = ''{'' @ b @ ''}'' @ c"
        unfolding s_def abc by (simp add: dropWhile_append2)
      then show ?thesis by simp
    next
      case False
      then have "s = dropWhile (\<lambda>c. c \<noteq> CHR ''{'') a @ ''{'' @ b @ ''}'' @ c"
        unfolding s_def abc by (auto simp: dropWhile_append1)
      then show ?thesis by simp
    qed
    then have "dropWhile (\<lambda>c. c \<noteq> CHR ''}'') (rev s) \<noteq> []"
      by (auto simp: dropWhile_eq_Nil_conv)
    then have "brace_span raw \<noteq> None"
      by (simp add: brace_span_def Let_def s_def)
    with none show False by simp
  qed
next
  assume no: "\<not> (\<exists>a b c. raw = a @ ''{'' @ b @ ''}'' @ c)"
  show "brace_span raw = None"
  proof (rule ccontr)
    assume "brace_span raw \<noteq> None"
    then obtain m where "brace_span raw = Some m" by auto
    from brace_span_Some [OF this] no show False by blast
  qed
qed

text \<open>
  Claim C6. The extraction step. (1) When the raw text holds two fences one after the
  other, the text taken is the trimmed interior of the first fenced block: what stands
  between the leftmost fence, an optional \<open>json\<close> tag after it, and the next fence.
  (2) Otherwise, when an opening brace is followed somewhere by a closing brace, the
  text taken is the leftmost such span, from the first opening brace to the last
  closing brace. (3) Otherwise the trimmed raw text is taken. (4) The fenced example of
  the specification normalizes to the single option \<open>A\<close> with no pros, cons, scores
  or trade-offs.
\<close>

theorem extraction_rule:
  \<open>((\<exists>a b c. raw = a @ fence @ b @ fence @ c) \<longrightarrow>
      (\<exists>pre tag body post.
          raw = pre @ fence @ tag @ body @ fence @ post
        \<and> (\<forall>a b. raw = a @ fence @ b \<longrightarrow> length pre \<le> length a)
        \<and> (tag = ''json'' \<or> tag = [] \<and> take 4 (body @ fence @ post) \<noteq> ''json'')
        \<and> (\<forall>a b. body @ fence @ post = a @ fence @ b \<longrightarrow> length body \<le> length a)
        \<and> extractJson raw = trim body))
   \<and> (\<not> (\<exists>a b c. raw = a @ fence @ b @ fence @ c) \<and> (\<exists>a b c. raw = a @ ''{'' @ b @ ''}'' @ c) \<longrightarrow>
      (\<exists>a b c. raw = a @ ''{'' @ b @ ''}'' @ c \<and> CHR ''{'' \<notin> set a \<and> CHR ''}'' \<notin> set c
         \<and> extractJson raw = ''{'' @ b @ ''}''))
   \<and> (\<not> (\<exists>a b c. raw = a @ fence @ b @ fence @ c) \<and> \<not> (\<exists>a b c. raw = a @ ''{'' @ b @ ''}'' @ c) \<longrightarrow>
      extractJson raw = trim raw)
   \<and> normalizeGrokResponse ns
        (''```json'' @ [CHR 0x0A] @
         ''{"options":[{"name":"A","pros":[],"cons":[],"scores":{}}]}'' @ [CHR 0x0A] @ ''```'') =
      Inr \<lparr>options = [\<lparr>name = ''A'', pros = [], cons = [], scores = []\<rparr>], tradeOffs = []\<rparr>\<close>
proof (intro conjI impI)
  assume "\<exists>a b c. raw = a @ fence @ b @ fence @ c"
  then have "fenced_block raw \<noteq> None" by (simp add: fenced_block_None)
  then obtain inner where fb: "fenced_block raw = Some inner" by auto
  from fenced_block_Some [OF this] obtain pre tag ws post where f:
    "raw = pre @ fence @ tag @ ws @ inner @ fence @ post"
    "\<forall>a b. raw = a @ fence @ b \<longrightarrow> length pre \<le> length a"
    "tag = ''json'' \<or> tag = [] \<and> take 4 (ws @ inner @ fence @ post) \<noteq> ''json''"
    "\<forall>c\<in>set ws. is_space c"
    "\<forall>a b. ws @ inner @ fence @ post = a @ fence @ b \<longrightarrow> length (ws @ inner) \<le> length a"
    by blast
  have "extractJson raw = trim (ws @ inner)"
    using fb f(4) by (simp add: extractJson_def trim_drop_spaces)
  with f show "\<exists>pre tag body post.
          raw = pre @ fence @ tag @ body @ fence @ post
        \<and> (\<forall>a b. raw = a @ fence @ b \<longrightarrow> length pre \<le> length a)
        \<and> (tag = ''json'' \<or> tag = [] \<and> take 4 (body @ fence @ post) \<noteq> ''json'')
        \<and> (\<forall>a b. body @ fence @ post = a @ fence @ b \<longrightarrow> length body \<le> length a)
        \<and> extractJson raw = trim body"
    by (intro exI [of _ pre] exI [of _ tag] exI [of _ "ws @ inner"] exI [of _ post]) simp
next
  assume a: "\<not> (\<exists>a b c. raw = a @ fence @ b @ fence @ c) \<and> (\<exists>a b c. raw = a @ ''{'' @ b @ ''}'' @ c)"
  then have fb: "fenced_block raw = None" by (simp add: fenced_block_None)
  from a have "brace_span raw \<noteq> None" by (simp add: brace_span_None)
  then obtain m where m: "brace_span raw = Some m" by auto
  from brace_span_Some [OF m] fb m
  show "\<exists>a b c. raw = a @ ''{'' @ b @ ''}'' @ c \<and> CHR ''{'' \<notin> set a \<and> CHR ''}'' \<notin> set c
         \<and> extractJson raw = ''{'' @ b @ ''}''"
    by (simp add: extractJson_def)
next
  assume a: "\<not> (\<exists>a b c. raw = a @ fence @ b @ fence @ c) \<and> \<not> (\<exists>a b c. raw = a @ ''{'' @ b @ ''}'' @ c)"
  then have "fenced_block raw = None" "brace_span raw = None"
    using fenced_block_None brace_span_None by blast+
  then show "extractJson raw = trim raw"
    by (simp add: extractJson_def)
next
  show \<open>normalizeGrokResponse ns
        (''```json'' @ [CHR 0x0A] @
         ''{"options":[{"name":"A","pros":[],"cons":[],"scores":{}}]}'' @ [CHR 0x0A] @ ''```'') =
      Inr \<lparr>options = [\<lparr>name = ''A'', pros = [], cons = [], scores = []\<rparr>], tradeOffs = []\<rparr>\<close>
    by code_simp
qed


theorem extraction_rule_witness:
  \<open>(\<exists>pre tag body post.
       ''Here: ```json {"a":1} ``` done'' = pre @ fence @ tag @ body @ fence @ post
     \<and> extractJson ''Here: ```json {"a":1} ``` done'' = trim body)
   \<and> (\<exists>a b c. ''Sure: {"a":{}} ok'' = a @ ''{'' @ b @ ''}'' @ c
         \<and> extractJson ''Sure: {"a":{}} ok'' = ''{'' @ b @ ''}'')
   \<and> extractJson ''  [1, 2]  '' = ''[1, 2]''\<close>
proof -
  let ?r1 = \<open>''Here: ```json {"a":1} ``` done''\<close>
  let ?r2 = \<open>''Sure: {"a":{}} ok''\<close>
  let ?r3 = "''  [1, 2]  ''"
  have "?r1 = ''Here: '' @ fence @ ''json {\"a\":1} '' @ fence @ '' done''"
    by (simp add: fence_def)
  then have h1: "\<exists>a b c. ?r1 = a @ fence @ b @ fence @ c" by blast
  have f2: "fenced_block ?r2 = None" by code_simp
  have n2: "\<not> (\<exists>a b c. ?r2 = a @ fence @ b @ fence @ c)"
    by (rule iffD1 [OF fenced_block_None f2])
  have "?r2 = ''Sure: '' @ ''{'' @ ''\"a\":{}'' @ ''}'' @ '' ok''" by simp
  then have h2: "\<exists>a b c. ?r2 = a @ ''{'' @ b @ ''}'' @ c" by blast
  have f3: "fenced_block ?r3 = None" by code_simp
  have n3: "\<not> (\<exists>a b c. ?r3 = a @ fence @ b @ fence @ c)"
    by (rule iffD1 [OF fenced_block_None f3])
  have b3: "brace_span ?r3 = None" by code_simp
  have m3: "\<not> (\<exists>a b c. ?r3 = a @ ''{'' @ b @ ''}'' @ c)"
    by (rule iffD1 [OF brace_span_None b3])
  have t3: "trim ?r3 = ''[1, 2]''" by code_simp
  from extraction_rule [of ?r1] h1 have c1: "\<exists>pre tag body post.
       ?r1 = pre @ fence @ tag @ body @ fence @ post \<and> extractJson ?r1 = trim body"
    by blast
  from extraction_rule [of ?r2] n2 h2 have c2: "\<exists>a b c. ?r2 = a @ ''{'' @ b @ ''}'' @ c
         \<and> extractJson ?r2 = ''{'' @ b @ ''}''"
    by blast
  from extraction_rule [of ?r3] n3 m3 t3 have c3: "extractJson ?r3 = ''[1, 2]''"
    by simp
  from c1 c2 c3 show ?thesis by blast
qed

subsection \<open>Fields of an option\<close>









subsection \<open>Failure of the normalization\<close>

text \<open>
  When normalization fails: on an empty text, a text that does not parse, a parsed
  value that is not an object or has no non-empty \<open>options\<close> array, or an option that
  either lacks the required shape or has a score whose conversion raises.
\<close>

lemma validateOption_fails_iff:
  "(\<exists>e. validateOption ns x i = Inl e) \<longleftrightarrow> \<not> option_shape x \<or> scores_raise ns x"
  by (cases x)
     (auto simp: validateOption_def option_shape_def scores_raise_def is_object_def get_prop_def
        split: option.splits json.splits sum.splits)

lemma validate_options_fails_iff:
  "(\<exists>e. validate_options ns i xs = Inl e) \<longleftrightarrow>
     list_ex (\<lambda>x. \<not> option_shape x \<or> scores_raise ns x) xs"
proof (induction xs arbitrary: i)
  case Nil
  then show ?case by simp
next
  case (Cons x xs)
  show ?case
  proof (cases "validateOption ns x i")
    case (Inl e)
    then have "\<not> option_shape x \<or> scores_raise ns x"
      using validateOption_fails_iff [of ns x i] by blast
    with Inl show ?thesis by simp
  next
    case (Inr a)
    then have "\<not> (\<not> option_shape x \<or> scores_raise ns x)"
      using validateOption_fails_iff [of ns x i] by auto
    with Inr Cons.IH [of "Suc i"] show ?thesis
      by (auto split: sum.splits)
  qed
qed

lemma normalization_fails_iff:
  "(\<exists>e. normalizeGrokResponse ns raw = Inl e) \<longleftrightarrow>
     raw = [] \<or>
     (case JSON_parse (extractJson raw) of
        None \<Rightarrow> True
      | Some parsed \<Rightarrow>
          \<not> is_object parsed \<or>
          (case get_prop ''options'' parsed of
             Some (JArray opts) \<Rightarrow>
               opts = [] \<or> list_ex (\<lambda>x. \<not> option_shape x \<or> scores_raise ns x) opts
           | _ \<Rightarrow> True))"
proof (cases "raw = []")
  case True
  then show ?thesis by (simp add: normalizeGrokResponse_def)
next
  case False
  show ?thesis
  proof (cases "JSON_parse (extractJson raw)")
    case None
    with False show ?thesis by (simp add: normalizeGrokResponse_def)
  next
    case (Some parsed)
    have "(\<exists>e. normalize_parsed ns parsed = Inl e) \<longleftrightarrow>
        \<not> is_object parsed \<or>
          (case get_prop ''options'' parsed of
             Some (JArray opts) \<Rightarrow>
               opts = [] \<or> list_ex (\<lambda>x. \<not> option_shape x \<or> scores_raise ns x) opts
           | _ \<Rightarrow> True)"
    proof (cases "\<exists>opts. is_object parsed \<and> get_prop ''options'' parsed = Some (JArray opts) \<and> opts \<noteq> []")
      case True
      then obtain opts where o: "is_object parsed" "get_prop ''options'' parsed = Some (JArray opts)"
        "opts \<noteq> []" by blast
      then have "(\<exists>e. normalize_parsed ns parsed = Inl e) \<longleftrightarrow>
          (\<exists>e. validate_options ns 0 opts = Inl e)"
        by (simp add: normalize_parsed_def split: sum.splits)
      with o show ?thesis
        by (simp add: validate_options_fails_iff)
    next
      case False
      then show ?thesis
        by (auto simp: normalize_parsed_def split: option.splits json.splits)
    qed
    with False Some show ?thesis by (simp add: normalizeGrokResponse_def)
  qed
qed

lemma missing_options_example:
  \<open>normalizeGrokResponse ns ''{"tradeOffs":[]}'' = Inl (NormalizationError MissingOptions)\<close>
  by code_simp

text \<open>
  Claim C2 (failing input). A score whose value is an object with an own property
  \<open>toString\<close> makes \<open>String(value)\<close> raise a \<open>TypeError\<close>: normalization fails although
  none of the conditions of the claim holds, and the failure is not a
  \<open>NormalizationError\<close>. Lemma \<open>normalization_fails_iff\<close> above gives the conditions
  of the claim together with this one.
\<close>

theorem scores_defect_fails_normalization:
  \<open>normalizeGrokResponse ns
     ''{"options":[{"name":"A","pros":[],"cons":[],"scores":{"k":{"toString":1}}}]}'' = Inl TypeError\<close>
  by code_simp

subsection \<open>The copy of the scores\<close>

lemma map_of_set_prop: "map_of (set_prop k v acc) = (map_of acc)(k \<mapsto> v)"
  by (induction acc) (auto simp: fun_eq_iff)

lemma map_of_assign:
  "map_of (assign k v acc) = (if k = ''__proto__'' then map_of acc else (map_of acc)(k \<mapsto> v))"
  by (simp add: assign_def map_of_set_prop)

text \<open>
  What the copy of \<open>scores\<close> holds when no conversion raises: for each key other than
  \<open>__proto__\<close>, the string of the entry as it is, the rendering of any other value
  that is not \<open>null\<close>, and nothing for \<open>null\<close>.
\<close>

lemma copy_scores_lookup:
  "copy_scores ns es acc = Inr sc \<Longrightarrow> distinct (map fst es) \<Longrightarrow>
     map_of sc k =
       (if k = ''__proto__'' then map_of acc k
        else case map_of es k of
               None \<Rightarrow> map_of acc k
             | Some JNull \<Rightarrow> map_of acc k
             | Some v \<Rightarrow> js_String ns v)"
proof (induction es arbitrary: acc)
  case Nil
  then show ?case by simp
next
  case (Cons p es)
  obtain key v where p: "p = (key, v)" by (cases p)
  from Cons.prems(2) p have d: "distinct (map fst es)" and fresh: "map_of es key = None"
    by (auto simp: map_of_eq_None_iff)
  show ?case
  proof (cases "v = JNull")
    case True
    with Cons.prems(1) p have "copy_scores ns es acc = Inr sc" by simp
    from Cons.IH [OF this d] True p fresh show ?thesis
      by (auto split: option.splits json.splits)
  next
    case False
    with Cons.prems(1) p obtain s where s: "js_String ns v = Some s"
      and r: "copy_scores ns es (assign key s acc) = Inr sc"
      by (cases v) (auto split: option.splits)
    from Cons.IH [OF r d] False p fresh s show ?thesis
      by (cases v) (auto simp: map_of_assign split: option.splits json.splits)
  qed
qed

text \<open>
  Claim C7 (failing inputs). For an accepted option, the \<open>scores\<close> field makes the
  validation fail when a value is an object with an own property \<open>toString\<close> (also
  inside an array), and the key \<open>__proto__\<close> is not copied although its value is a
  string.
\<close>

theorem scores_not_lenient:
  \<open>validateOption ns
     (JObject [(''name'', JString ''A''), (''pros'', JArray []), (''cons'', JArray []),
        (''scores'', JObject [(''cost'', JArray [JObject [(''toString'', JString ''low'')]])])]) 0
     = Inl TypeError
   \<and> validateOption ns
     (JObject [(''name'', JString ''A''), (''pros'', JArray []), (''cons'', JArray []),
        (''scores'', JObject [(''__proto__'', JString ''high''), (''cost'', JString ''low'')])]) 0
     = Inr \<lparr>name = ''A'', pros = [], cons = [], scores = [(''cost'', ''low'')]\<rparr>\<close>
  by code_simp

section \<open>Properties of the prompt builder\<close>

lemma occurrences_skip: "occurrences pat S \<le> occurrences pat (A @ S)"
  by (induction A) auto

lemma occurrences_twice:
  assumes "pat \<noteq> []"
  shows "2 \<le> occurrences pat (A @ pat @ B @ pat @ C)"
proof -
  from assms obtain c cs where pat: "pat = c # cs" by (cases pat) auto
  have "1 \<le> occurrences pat (pat @ C)"
    by (simp add: pat)
  also have "\<dots> \<le> occurrences pat ((cs @ B) @ pat @ C)"
    by (rule occurrences_skip)
  finally have "2 \<le> occurrences pat (pat @ B @ pat @ C)"
    by (simp add: pat)
  also have "\<dots> \<le> occurrences pat (A @ pat @ B @ pat @ C)"
    by (rule occurrences_skip)
  finally show ?thesis .
qed

lemma numbered_length: "length (numbered xs) = length xs"
  by (simp add: numbered_def)

lemma numbered_nth: "i < length xs \<Longrightarrow> numbered xs ! i = show_nat (i + 1) @ ''. '' @ xs ! i"
  by (simp add: numbered_def)

lemma join_Cons: "join sep (x # xs) = x @ (if xs = [] then [] else sep @ join sep xs)"
  by (cases xs) simp_all

lemma join_nth: "i < length xs \<Longrightarrow> \<exists>P Q. join sep xs = P @ xs ! i @ Q"
proof (induction xs arbitrary: i)
  case Nil
  then show ?case by simp
next
  case (Cons x xs)
  show ?case
  proof (cases i)
    case 0
    have "join sep (x # xs) = [] @ x @ (if xs = [] then [] else sep @ join sep xs)"
      by (simp add: join_Cons)
    with 0 show ?thesis by (metis nth_Cons_0)
  next
    case (Suc k)
    with Cons.prems have k: "k < length xs" by simp
    then obtain P Q where "join sep xs = P @ xs ! k @ Q"
      using Cons.IH by blast
    moreover from k have "xs \<noteq> []" by auto
    ultimately have "join sep (x # xs) = (x @ sep @ P) @ xs ! k @ Q"
      by (simp add: join_Cons)
    with Suc show ?thesis by (metis nth_Cons_Suc)
  qed
qed

lemma join_nth2:
  "i < j \<Longrightarrow> j < length xs \<Longrightarrow> \<exists>P Q R. join sep xs = P @ xs ! i @ Q @ xs ! j @ R"
proof (induction xs arbitrary: i j)
  case Nil
  then show ?case by simp
next
  case (Cons x xs)
  from Cons.prems obtain k where j: "j = Suc k" by (cases j) auto
  with Cons.prems have k: "k < length xs" by simp
  then have ne: "xs \<noteq> []" by auto
  show ?case
  proof (cases i)
    case 0
    from join_nth [OF k] obtain P Q where "join sep xs = P @ xs ! k @ Q" by blast
    with ne have "join sep (x # xs) = [] @ x @ (sep @ P) @ xs ! k @ Q"
      by (simp add: join_Cons)
    with 0 j show ?thesis by (metis nth_Cons_0 nth_Cons_Suc)
  next
    case (Suc i')
    with Cons.prems j have "i' < k" by simp
    from Cons.IH [OF this k] obtain P Q R where
      "join sep xs = P @ xs ! i' @ Q @ xs ! k @ R" by blast
    with ne have "join sep (x # xs) = (x @ sep @ P) @ xs ! i' @ Q @ xs ! k @ R"
      by (simp add: join_Cons)
    with Suc j show ?thesis by (metis nth_Cons_Suc)
  qed
qed

lemma prompt_shape:
  \<open>\<exists>A B C.
      (\<forall>os cs. buildComparisonPrompt os cs =
         A @ join newline (numbered os) @ B @ join newline (numbered cs) @ C)
    \<and> (\<exists>A1 A2. A = A1 @ ''without declaring a winner'' @ A2)
    \<and> (\<exists>C1 C2. C = C1 @ ''DO NOT declare a "best" or "winner"'' @ C2)\<close>
proof -
  define A where
    "A = ''You are a neutral technical referee. Compare the following options without declaring a winner.''
         @ newline @ newline @ ''OPTIONS TO COMPARE:'' @ newline"
  define B where "B = newline @ newline @ ''CONSTRAINTS TO EVALUATE:'' @ newline"
  define C where "C = drop (length (A @ B)) (buildComparisonPrompt [] [])"
  have shape: "buildComparisonPrompt os cs =
      A @ join newline (numbered os) @ B @ join newline (numbered cs) @ C" for os cs
    by (simp add: buildComparisonPrompt_def Let_def A_def B_def C_def newline_def numbered_def)
  have a: "A = ''You are a neutral technical referee. Compare the following options ''
      @ ''without declaring a winner'' @ (''.'' @ newline @ newline @ ''OPTIONS TO COMPARE:'' @ newline)"
    by (simp add: A_def)
  have c: \<open>C = (newline @ newline @ ''INSTRUCTIONS:'' @ newline @
        ''1. Analyze each option against ALL constraints'' @ newline @
        ''2. List specific pros and cons for each option'' @ newline @ ''3. '')
      @ ''DO NOT declare a "best" or "winner"'' @ drop 148 C\<close>
    by (simp add: buildComparisonPrompt_def Let_def A_def B_def C_def newline_def numbered_def)
  from shape a c show ?thesis by blast
qed

text \<open>
  Claim C9, as amended. The prompt is a fixed text around two lists: the numbered
  options and the numbered constraints, each joined by newlines. The fixed text does
  not depend on the input; its first part holds \<open>without declaring a winner\<close> and its
  last part the instruction \<open>DO NOT declare a "best" or "winner"\<close>. A numbered list has
  exactly one entry per input element: the entry of the element at position \<open>i\<close>
  (counting from 0) is its ordinal \<open>i + 1\<close>, a dot, a space and the element, and the
  entries stand in the joined list in input order. The function is total, so it returns
  a prompt for every input, the empty sequences included. The text of an element is
  not bound to occur only once in the prompt.
\<close>

theorem prompt_lists_items:
  \<open>(\<exists>A B C.
      (\<forall>os cs. buildComparisonPrompt os cs =
         A @ join newline (numbered os) @ B @ join newline (numbered cs) @ C)
    \<and> (\<exists>A1 A2. A = A1 @ ''without declaring a winner'' @ A2)
    \<and> (\<exists>C1 C2. C = C1 @ ''DO NOT declare a "best" or "winner"'' @ C2))
   \<and> length (numbered xs) = length xs
   \<and> (\<forall>i < length xs. numbered xs ! i = show_nat (i + 1) @ ''. '' @ xs ! i)
   \<and> (\<forall>i < length xs. \<exists>P Q. join newline (numbered xs) = P @ numbered xs ! i @ Q)
   \<and> (\<forall>i j. i < j \<and> j < length xs \<longrightarrow>
        (\<exists>P Q R. join newline (numbered xs) = P @ numbered xs ! i @ Q @ numbered xs ! j @ R))\<close>
proof (intro conjI allI impI)
  show \<open>\<exists>A B C.
      (\<forall>os cs. buildComparisonPrompt os cs =
         A @ join newline (numbered os) @ B @ join newline (numbered cs) @ C)
    \<and> (\<exists>A1 A2. A = A1 @ ''without declaring a winner'' @ A2)
    \<and> (\<exists>C1 C2. C = C1 @ ''DO NOT declare a "best" or "winner"'' @ C2)\<close>
    by (rule prompt_shape)
next
  show "length (numbered xs) = length xs"
    by (rule numbered_length)
next
  fix i assume "i < length xs"
  then show "numbered xs ! i = show_nat (i + 1) @ ''. '' @ xs ! i"
    by (rule numbered_nth)
next
  fix i assume "i < length xs"
  then have "i < length (numbered xs)" by (simp add: numbered_length)
  then show "\<exists>P Q. join newline (numbered xs) = P @ numbered xs ! i @ Q"
    by (rule join_nth)
next
  fix i j assume "i < j \<and> j < length xs"
  then have "i < j" "j < length (numbered xs)" by (simp_all add: numbered_length)
  then show "\<exists>P Q R. join newline (numbered xs) = P @ numbered xs ! i @ Q @ numbered xs ! j @ R"
    by (rule join_nth2)
qed

theorem prompt_lists_items_witness:
  "(\<exists>P Q R. join newline (numbered [''AWS'', ''Azure'']) = P @ ''1. AWS'' @ Q @ ''2. Azure'' @ R)
   \<and> (\<exists>P Q. join newline (numbered [''AWS'', ''Azure'']) = P @ ''2. Azure'' @ Q)"
proof -
  let ?xs = "[''AWS'', ''Azure'']"
  have n0: "numbered ?xs ! 0 = ''1. AWS''" by code_simp
  have n1: "numbered ?xs ! 1 = ''2. Azure''" by code_simp
  have h: "(0::nat) < 1 \<and> 1 < length ?xs" by simp
  have h1: "1 < length ?xs" by simp
  from prompt_lists_items [of ?xs] h have
    "\<exists>P Q R. join newline (numbered ?xs) = P @ numbered ?xs ! 0 @ Q @ numbered ?xs ! 1 @ R"
    by blast
  moreover from prompt_lists_items [of ?xs] h1 have
    "\<exists>P Q. join newline (numbered ?xs) = P @ numbered ?xs ! 1 @ Q"
    by blast
  ultimately show ?thesis by (simp only: n0 n1)
qed

text \<open>
  The claim as stated fails: an option that reads like the first instruction of the
  template occurs twice with its ordinal, once in the list of options and once among
  the instructions.
\<close>

theorem option_listed_twice_counterexample:
  \<open>2 \<le> occurrences ''1. Analyze each option against ALL constraints''
     (buildComparisonPrompt [''Analyze each option against ALL constraints'', ''B''] [''cost''])\<close>
proof -
  let ?pat = "''1. Analyze each option against ALL constraints''"
  let ?p = "buildComparisonPrompt [''Analyze each option against ALL constraints'', ''B''] [''cost'']"
  have dec: "?p =
     (''You are a neutral technical referee. Compare the following options without declaring a winner.''
        @ newline @ newline @ ''OPTIONS TO COMPARE:'' @ newline)
     @ ?pat @
     (newline @ ''2. B'' @ newline @ newline @ ''CONSTRAINTS TO EVALUATE:'' @ newline @ ''1. cost''
        @ newline @ newline @ ''INSTRUCTIONS:'' @ newline)
     @ ?pat @ drop 263 ?p"
    by code_simp
  have "?pat \<noteq> []" by simp
  from occurrences_twice [OF this] show ?thesis
    by (subst dec) blast
qed

section \<open>Properties of the completion client\<close>

lemma run_attempt_retry:
  "retryable out \<Longrightarrow> attempt \<noteq> maxRetries \<Longrightarrow>
     run_attempt out attempt maxRetries = RetryAfter (backoff attempt)"
  by (cases out)
     (auto simp: retryable_def run_attempt_def try_block_def catch_block_def createGrokError_def Let_def)

lemma run_attempt_last:
  "retryable out \<Longrightarrow> \<exists>e. run_attempt out maxRetries maxRetries = Throw e"
  by (cases out)
     (auto simp: retryable_def run_attempt_def try_block_def catch_block_def createGrokError_def Let_def)

lemma run_attempt_fatal:
  "status \<noteq> 429 \<Longrightarrow> status < 500 \<Longrightarrow>
     run_attempt (ErrorResponse status body) attempt maxRetries =
       Throw (createGrokError (''Groq API error: '' @ show_nat status @ '' - '' @ body) (Some status))"
  by (simp add: run_attempt_def try_block_def catch_block_def createGrokError_def Let_def)

lemma retries_Suc: "a \<le> b \<Longrightarrow> retries a (Suc b) = retries a b @ [Fetch b, Delay (backoff b)]"
  by (simp add: retries_def)

lemma retries_same: "retries a a = []"
  by (simp add: retries_def)

lemma retry_loop_prefix:
  assumes "a \<le> b" and "b \<le> m" and "\<forall>k. a \<le> k \<and> k < b \<longrightarrow> retryable (endpoint k)"
  shows "retry_loop endpoint m a =
           (retries a b @ fst (retry_loop endpoint m b), snd (retry_loop endpoint m b))"
  using assms
proof (induction b rule: dec_induct)
  case base
  then show ?case by (simp add: retries_same)
next
  case (step n)
  then have lt: "n < m" and rn: "retryable (endpoint n)" by auto
  from step have IH: "retry_loop endpoint m a =
      (retries a n @ fst (retry_loop endpoint m n), snd (retry_loop endpoint m n))"
    by auto
  from lt rn have "run_attempt (endpoint n) n m = RetryAfter (backoff n)"
    by (simp add: run_attempt_retry)
  with lt have "retry_loop endpoint m n =
      (Fetch n # Delay (backoff n) # fst (retry_loop endpoint m (Suc n)), snd (retry_loop endpoint m (Suc n)))"
    by (subst retry_loop.simps) (simp split: prod.splits)
  with IH step.hyps(1) show ?case
    by (simp add: retries_Suc)
qed

lemma retry_loop_bound:
  "length (filter is_fetch (fst (retry_loop endpoint m a))) \<le> m + 1 - a"
proof (induction endpoint m a rule: retry_loop.induct)
  case (1 endpoint m a)
  show ?case
  proof (cases "a \<le> m")
    case False
    then show ?thesis by (subst retry_loop.simps) simp
  next
    case True
    show ?thesis
    proof (cases "run_attempt (endpoint a) a m")
      case (Return s)
      with True show ?thesis by (subst retry_loop.simps) (simp add: is_fetch_def)
    next
      case (Throw e)
      with True show ?thesis by (subst retry_loop.simps) (simp add: is_fetch_def)
    next
      case (RetryAfter ms)
      from "1.IH" [OF True RetryAfter]
      have "length (filter is_fetch (fst (retry_loop endpoint m (a + 1)))) \<le> m + 1 - (a + 1)" .
      with True RetryAfter show ?thesis
        by (subst retry_loop.simps) (auto simp: is_fetch_def split: prod.splits)
    qed
  qed
qed

lemma getApiKey_configured: "key \<noteq> [] \<Longrightarrow> getApiKey (Some key) = Inr key"
  by (simp add: getApiKey_def)

lemma all_retryable_trace:
  assumes "\<forall>k. 1 \<le> k \<and> k \<le> m \<longrightarrow> retryable (endpoint k)"
  shows "fst (retry_loop endpoint m 1) = retries 1 m @ (if m = 0 then [] else [Fetch m])
         \<and> (\<exists>e. snd (retry_loop endpoint m 1) = Inl e)"
proof (cases "m = 0")
  case True
  then show ?thesis by (subst (1 2) retry_loop.simps) (simp add: retries_def)
next
  case False
  then have m: "1 \<le> m" by simp
  from assms have "\<forall>k. 1 \<le> k \<and> k < m \<longrightarrow> retryable (endpoint k)" by simp
  from retry_loop_prefix [OF m order_refl this]
  have pre: "retry_loop endpoint m 1 =
      (retries 1 m @ fst (retry_loop endpoint m m), snd (retry_loop endpoint m m))" .
  from assms m have "retryable (endpoint m)" by simp
  from run_attempt_last [OF this] obtain e where "run_attempt (endpoint m) m m = Throw e" by blast
  then have "retry_loop endpoint m m = ([Fetch m], Inl e)"
    by (subst retry_loop.simps) simp
  with pre False show ?thesis by simp
qed

lemma reached_attempt:
  assumes "1 \<le> k" and "k \<le> m" and "\<forall>j. 1 \<le> j \<and> j < k \<longrightarrow> retryable (endpoint j)"
    and "run_attempt (endpoint k) k m = Throw e \<and> r = Inl e \<or> run_attempt (endpoint k) k m = Return s \<and> r = Inr s"
  shows "retry_loop endpoint m 1 = (retries 1 k @ [Fetch k], r)"
proof -
  from assms(2,4) have "retry_loop endpoint m k = ([Fetch k], r)"
    by (subst retry_loop.simps) auto
  with retry_loop_prefix [OF assms(1,2,3)] show ?thesis by simp
qed

text \<open>
  Claim C1. Whatever the endpoint brings, at most \<open>maxRetries\<close> calls are issued. With
  the API key configured: when every attempt ends in a retryable outcome (status 429
  or at least 500, or a rejected call), the trace is attempt 1, a wait of
  \<open>BASE_DELAY_MS * 2 ^ (attempt - 1)\<close> (1000, 2000, 4000 ms), attempt 2, and so on to
  attempt \<open>maxRetries\<close>, with no wait after it, and the call fails with a
  \<open>GrokApiError\<close>; when an attempt that is reached gets any other status of a failed
  response, the trace ends with that attempt, with no wait and no further attempt, and
  the call fails with the error of that status.
\<close>

theorem retry_policy:
  "length (filter is_fetch (fst (callGrokWithRetry env_key endpoint maxRetries))) \<le> maxRetries
   \<and> (env_key = Some key \<and> key \<noteq> [] \<and>
       (\<forall>a. 1 \<le> a \<and> a \<le> maxRetries \<longrightarrow> retryable (endpoint a)) \<longrightarrow>
         fst (callGrokWithRetry env_key endpoint maxRetries) =
           retries 1 maxRetries @ (if maxRetries = 0 then [] else [Fetch maxRetries])
       \<and> (\<exists>e. snd (callGrokWithRetry env_key endpoint maxRetries) = Inl e))
   \<and> (env_key = Some key \<and> key \<noteq> [] \<and> 1 \<le> k \<and> k \<le> maxRetries \<and>
       (\<forall>a. 1 \<le> a \<and> a < k \<longrightarrow> retryable (endpoint a)) \<and>
       endpoint k = ErrorResponse status body \<and> status \<noteq> 429 \<and> status < 500 \<longrightarrow>
         callGrokWithRetry env_key endpoint maxRetries =
           (retries 1 k @ [Fetch k],
            Inl (createGrokError (''Groq API error: '' @ show_nat status @ '' - '' @ body) (Some status))))
   \<and> backoff 1 = 1000 \<and> backoff 2 = 2000 \<and> backoff 3 = 4000 \<and> MAX_RETRIES = 3"
proof (intro conjI impI)
  show "length (filter is_fetch (fst (callGrokWithRetry env_key endpoint maxRetries))) \<le> maxRetries"
    using retry_loop_bound [of endpoint maxRetries 1]
    by (simp add: callGrokWithRetry_def split: sum.splits)
next
  assume a: "env_key = Some key \<and> key \<noteq> [] \<and>
       (\<forall>a. 1 \<le> a \<and> a \<le> maxRetries \<longrightarrow> retryable (endpoint a))"
  then have c: "callGrokWithRetry env_key endpoint maxRetries = retry_loop endpoint maxRetries 1"
    by (simp add: callGrokWithRetry_def getApiKey_configured)
  from a all_retryable_trace [of maxRetries endpoint]
  show "fst (callGrokWithRetry env_key endpoint maxRetries) =
           retries 1 maxRetries @ (if maxRetries = 0 then [] else [Fetch maxRetries])"
    and "\<exists>e. snd (callGrokWithRetry env_key endpoint maxRetries) = Inl e"
    unfolding c by blast+
next
  assume a: "env_key = Some key \<and> key \<noteq> [] \<and> 1 \<le> k \<and> k \<le> maxRetries \<and>
       (\<forall>a. 1 \<le> a \<and> a < k \<longrightarrow> retryable (endpoint a)) \<and>
       endpoint k = ErrorResponse status body \<and> status \<noteq> 429 \<and> status < 500"
  then have c: "callGrokWithRetry env_key endpoint maxRetries = retry_loop endpoint maxRetries 1"
    by (simp add: callGrokWithRetry_def getApiKey_configured)
  from a have "run_attempt (endpoint k) k maxRetries =
      Throw (createGrokError (''Groq API error: '' @ show_nat status @ '' - '' @ body) (Some status))"
    by (simp add: run_attempt_fatal)
  with a reached_attempt [of k maxRetries endpoint _ _ undefined]
  show "callGrokWithRetry env_key endpoint maxRetries =
           (retries 1 k @ [Fetch k],
            Inl (createGrokError (''Groq API error: '' @ show_nat status @ '' - '' @ body) (Some status)))"
    unfolding c by blast
qed (simp_all add: backoff_def BASE_DELAY_MS_def MAX_RETRIES_def)

theorem retry_policy_witness:
  "fst (callGrokWithRetry (Some ''gsk'') (\<lambda>a. ErrorResponse 500 ''down'') 3) =
     [Fetch 1, Delay 1000, Fetch 2, Delay 2000, Fetch 3]
   \<and> (\<exists>e. snd (callGrokWithRetry (Some ''gsk'') (\<lambda>a. ErrorResponse 500 ''down'') 3) = Inl e)
   \<and> callGrokWithRetry (Some ''gsk'') (\<lambda>a. ErrorResponse 401 ''denied'') 3 =
       ([Fetch 1],
        Inl \<lparr>message = ''Groq API error: 401 - denied'', statusCode = Some 401, isRetryable = False\<rparr>)"
proof -
  let ?down = "\<lambda>a::nat. ErrorResponse 500 ''down''"
  let ?denied = "\<lambda>a::nat. ErrorResponse 401 ''denied''"
  have h1: "Some ''gsk'' = Some ''gsk'' \<and> ''gsk'' \<noteq> [] \<and>
      (\<forall>a. 1 \<le> a \<and> a \<le> 3 \<longrightarrow> retryable (?down a))"
    by (simp add: retryable_def)
  have h2: "Some ''gsk'' = Some ''gsk'' \<and> ''gsk'' \<noteq> [] \<and> (1::nat) \<le> 1 \<and> (1::nat) \<le> 3 \<and>
      (\<forall>a. 1 \<le> a \<and> a < 1 \<longrightarrow> retryable (?denied a)) \<and>
      ?denied 1 = ErrorResponse 401 ''denied'' \<and> (401::nat) \<noteq> 429 \<and> (401::nat) < 500"
    by simp
  have r: "retries 1 3 = [Fetch 1, Delay 1000, Fetch 2, Delay 2000]" by code_simp
  have r1: "retries 1 1 = []" by code_simp
  have e: "createGrokError (''Groq API error: '' @ show_nat 401 @ '' - '' @ ''denied'') (Some 401) =
      \<lparr>message = ''Groq API error: 401 - denied'', statusCode = Some 401, isRetryable = False\<rparr>"
    by code_simp
  note down = retry_policy [of "Some ''gsk''" ?down 3 "''gsk''", THEN conjunct2, THEN conjunct1,
      THEN mp, OF h1]
  note denied = retry_policy [of "Some ''gsk''" ?denied 3 "''gsk''" 1 401 "''denied''",
      THEN conjunct2, THEN conjunct2, THEN conjunct1, THEN mp, OF h2]
  from down [unfolded r] denied [unfolded r1 e] show ?thesis by simp
qed





section \<open>Properties of the comparison service\<close>



section \<open>Round trip through \<open>JSON.stringify\<close>\<close>


lemma hex_val_hex_digit: "d < 16 \<Longrightarrow> hex_val (hex_digit d) = Some d"
  by (auto simp: hex_val_def hex_digit_def Let_def)

lemma unicode_escape_control:
  assumes "(of_char c :: nat) < 32"
  shows "unicode_escape (CHR ''0'') (CHR ''0'')
           (hex_digit (of_char c div 16)) (hex_digit (of_char c mod 16)) = Some c"
proof -
  let ?n = "of_char c :: nat"
  have z: "hex_val (CHR ''0'') = Some 0" by (simp add: hex_val_def)
  have a: "hex_val (hex_digit (?n div 16)) = Some (?n div 16)"
    using assms by (intro hex_val_hex_digit) simp
  have b: "hex_val (hex_digit (?n mod 16)) = Some (?n mod 16)"
    by (intro hex_val_hex_digit) simp
  have "16 * (?n div 16) + ?n mod 16 = ?n" by simp
  with assms show ?thesis
    by (simp add: unicode_escape_def z a b Let_def)
qed

lemma lex_string_escape:
  "lex_string (escape_char c @ cs) =
     (case lex_string cs of None \<Rightarrow> None | Some (s, r) \<Rightarrow> Some (c # s, r))"
proof -
  consider "c = CHR 0x08" | "c = CHR 0x09" | "c = CHR 0x0A" | "c = CHR 0x0C" | "c = CHR 0x0D"
    | "c = CHR 0x22" | "c = CHR 0x5C"
    | "c \<notin> {CHR 0x08, CHR 0x09, CHR 0x0A, CHR 0x0C, CHR 0x0D, CHR 0x22, CHR 0x5C}" "(of_char c :: nat) < 32"
    | "c \<notin> {CHR 0x08, CHR 0x09, CHR 0x0A, CHR 0x0C, CHR 0x0D, CHR 0x22, CHR 0x5C}" "\<not> (of_char c :: nat) < 32"
    by blast
  then show ?thesis
  proof cases
    case 8
    then show ?thesis
      by (simp add: escape_char_def unicode_escape_control split: option.splits)
  next
    case 9
    then show ?thesis
      by (simp add: escape_char_def split: option.splits)
  qed (simp_all add: escape_char_def simple_escape_def split: option.splits)
qed

lemma lex_string_quoted:
  "lex_string (concat (map escape_char s) @ CHR 0x22 # rest) = Some (s, rest)"
  by (induction s) (simp_all add: lex_string_escape)

lemma lex_quote: "lex (JSON_quote s @ rest) = cons_tok (TString s) (lex rest)"
  by (simp add: JSON_quote_def json_ws_def lex_string_quoted)
lemma lex_punct:
  "lex (CHR ''['' # cs) = cons_tok TLBracket (lex cs)"
  "lex (CHR '']'' # cs) = cons_tok TRBracket (lex cs)"
  "lex (CHR ''{'' # cs) = cons_tok TLBrace (lex cs)"
  "lex (CHR ''}'' # cs) = cons_tok TRBrace (lex cs)"
  "lex (CHR '','' # cs) = cons_tok TComma (lex cs)"
  "lex (CHR '':'' # cs) = cons_tok TColon (lex cs)"
  by (simp_all add: json_ws_def)

lemma lex_stringify:
  "textual v \<Longrightarrow>
     lex (JSON_stringify ns v @ rest) =
       (case lex rest of None \<Rightarrow> None | Some us \<Rightarrow> Some (tokens v @ us))"
  "textual_elements xs \<Longrightarrow>
     lex (stringify_elements ns xs @ rest) =
       (case lex rest of None \<Rightarrow> None | Some us \<Rightarrow> Some (tokens_elements xs @ us))"
  "textual_members ms \<Longrightarrow>
     lex (stringify_members ns ms @ rest) =
       (case lex rest of None \<Rightarrow> None | Some us \<Rightarrow> Some (tokens_members ms @ us))"
proof (induction v and xs and ms arbitrary: rest and rest and rest
    rule: tokens_tokens_elements_tokens_members.induct)
  case (4 s)
  show ?case by (simp add: lex_quote cons_tok_def del: lex.simps split: option.splits)
next
  case (5 xs)
  then have "textual_elements xs" by simp
  from "5.IH" [OF this, of "CHR '']'' # rest"] show ?case
    by (simp add: lex_punct cons_tok_def del: lex.simps split: option.splits)
next
  case (6 ms)
  then have "textual_members ms" by simp
  from "6.IH" [OF this, of "CHR ''}'' # rest"] show ?case
    by (simp add: lex_punct cons_tok_def del: lex.simps split: option.splits)
next
  case (8 x xs)
  then have x: "textual x" and xs: "textual_elements xs" by simp_all
  show ?case
  proof (cases "xs = []")
    case True
    with "8.IH"(1) [OF x, of rest] show ?thesis by (simp del: lex.simps split: option.splits)
  next
    case False
    from "8.IH"(1) [OF x, of "CHR '','' # stringify_elements ns xs @ rest"]
      "8.IH"(2) [OF False xs, of rest] False
    show ?thesis
      by (simp add: lex_punct cons_tok_def del: lex.simps split: option.splits)
  qed
next
  case (10 k v ms)
  then have v: "textual v" and ms: "textual_members ms" by simp_all
  show ?case
  proof (cases "ms = []")
    case True
    with "10.IH"(1) [OF v, of rest] show ?thesis
      by (simp add: lex_quote lex_punct cons_tok_def del: lex.simps split: option.splits)
  next
    case False
    from "10.IH"(1) [OF v, of "CHR '','' # stringify_members ns ms @ rest"]
      "10.IH"(2) [OF False ms, of rest] False
    show ?thesis
      by (simp add: lex_quote lex_punct cons_tok_def del: lex.simps split: option.splits)
  qed
qed (simp_all del: lex.simps split: option.splits)

lemma set_prop_fresh: "k \<notin> set (map fst acc) \<Longrightarrow> set_prop k v acc = acc @ [(k, v)]"
  by (induction acc) auto

lemma run_tokens:
  "textual v \<Longrightarrow> m = WantValue \<or> m = WantValueOrEnd \<Longrightarrow>
     run m stk (tokens v @ rest) = run (Done v) stk rest"
  "textual_elements xs \<Longrightarrow> xs \<noteq> [] \<Longrightarrow> m = WantValue \<or> m = WantValueOrEnd \<Longrightarrow>
     run m (InArr acc # stk) (tokens_elements xs @ TRBracket # rest) =
       run (Done (JArray (rev acc @ xs))) stk rest"
  "textual_members ms \<Longrightarrow> ms \<noteq> [] \<Longrightarrow> distinct (map fst (macc @ ms)) \<Longrightarrow>
     m = WantKey \<or> m = WantKeyOrEnd \<Longrightarrow>
     run m (InObj macc # stk) (tokens_members ms @ TRBrace # rest) =
       run (Done (JObject (macc @ ms))) stk rest"
proof (induction v and xs and ms arbitrary: m stk rest and m acc stk rest and m macc stk rest
    rule: tokens_tokens_elements_tokens_members.induct)
  case (4 s)
  then show ?case by auto
next
  case (5 xs)
  then have t: "textual_elements xs" by simp
  show ?case
  proof (cases "xs = []")
    case True
    with "5.prems"(2) show ?thesis by auto
  next
    case False
    from "5.IH" [OF t False, of WantValueOrEnd "[]" stk rest] "5.prems"(2)
    show ?thesis by auto
  qed
next
  case (6 ms)
  then have t: "textual_members ms" and d: "distinct (map fst ms)" by simp_all
  show ?case
  proof (cases "ms = []")
    case True
    with "6.prems"(2) show ?thesis by auto
  next
    case False
    from "6.IH" [OF t False, of "[]" WantKeyOrEnd stk rest] d "6.prems"(2)
    show ?thesis by auto
  qed
next
  case (8 x xs)
  then have x: "textual x" and xs: "textual_elements xs" by simp_all
  show ?case
  proof (cases "xs = []")
    case True
    from "8.IH"(1) [OF x "8.prems"(3), of "InArr acc # stk" "TRBracket # rest"] True
    show ?thesis by simp
  next
    case False
    from "8.IH"(1) [OF x "8.prems"(3), of "InArr acc # stk" "TComma # tokens_elements xs @ TRBracket # rest"]
      "8.IH"(2) [OF False xs False, of WantValue "x # acc" stk rest] False
    show ?thesis by simp
  qed
next
  case (10 k v ms)
  then have v: "textual v" and ms: "textual_members ms" by simp_all
  from "10.prems"(3) have fresh: "k \<notin> set (map fst macc)" by auto
  have key: "run m (InObj macc # stk) (TString k # TColon # ts) = run WantValue (InMember macc k # stk) ts" for ts
    using "10.prems"(4) by auto
  have close: "run (Done v) (InMember macc k # stk) (TRBrace # ts) =
      run (Done (JObject (macc @ [(k, v)]))) stk ts" for ts
    by (simp add: set_prop_fresh [OF fresh])
  have comma: "run (Done v) (InMember macc k # stk) (TComma # ts) =
      run WantKey (InObj (macc @ [(k, v)]) # stk) ts" for ts
    by (simp add: set_prop_fresh [OF fresh])
  show ?case
  proof (cases "ms = []")
    case True
    from "10.IH"(1) [OF v, of WantValue "InMember macc k # stk" "TRBrace # rest"] True
    show ?thesis by (simp add: key close del: run.simps)
  next
    case False
    from "10.prems"(3) have d: "distinct (map fst ((macc @ [(k, v)]) @ ms))" by simp
    from "10.IH"(1) [OF v, of WantValue "InMember macc k # stk" "TComma # tokens_members ms @ TRBrace # rest"]
      "10.IH"(2) [OF False ms False d, of WantKey stk rest] False
    show ?thesis by (simp add: key comma del: run.simps)
  qed
qed simp_all

lemma JSON_parse_stringify: "textual v \<Longrightarrow> JSON_parse (JSON_stringify ns v) = Some v"
  using lex_stringify(1) [of v ns "[]"] run_tokens(1) [of v WantValue "[]" "[]"]
  by (simp add: JSON_parse_def)

lemma brace_span_whole: "brace_span (''{'' @ b @ ''}'') = Some (''{'' @ b @ ''}'')"
  by (simp add: brace_span_def Let_def)

lemma copy_scores_strings:
  "distinct (map fst (acc @ kvs)) \<Longrightarrow> ''__proto__'' \<notin> set (map fst kvs) \<Longrightarrow>
     copy_scores ns (map (\<lambda>(k, v). (k, JString v)) kvs) acc = Inr (acc @ kvs)"
proof (induction kvs arbitrary: acc)
  case Nil
  then show ?case by simp
next
  case (Cons p kvs)
  obtain k v where p: "p = (k, v)" by (cases p)
  from Cons.prems p have fresh: "k \<notin> set (map fst acc)" and np: "k \<noteq> ''__proto__''"
    and d: "distinct (map fst ((acc @ [(k, v)]) @ kvs))" and n: "''__proto__'' \<notin> set (map fst kvs)"
    by auto
  from Cons.IH [OF d n] show ?case
    by (simp add: p assign_def np set_prop_fresh [OF fresh])
qed

lemma nonblank_strings_map:
  "list_all trimmed_nonempty ps \<Longrightarrow> nonblank_strings (map JString ps) = ps"
  by (induction ps) (auto simp: trimmed_nonempty_def)

lemma validateOption_option_json:
  assumes "well_formed_option a" and "''__proto__'' \<notin> set (map fst (scores a))"
  shows "validateOption ns (option_json a) i = Inr a"
proof -
  from assms(1) have nm: "trim (name a) = name a" "name a \<noteq> []"
    and ps: "nonblank_strings (map JString (pros a)) = pros a"
    and cs: "nonblank_strings (map JString (cons a)) = cons a"
    and d: "distinct (map fst ([] @ scores a))"
    by (simp_all add: well_formed_option_def trimmed_nonempty_def nonblank_strings_map)
  have sc: "copy_scores ns (map (\<lambda>(k, v). (k, JString v)) (scores a)) [] = Inr (scores a)"
    using copy_scores_strings [OF d assms(2)] by simp
  show ?thesis
    by (simp add: validateOption_def option_json_def is_object_def get_prop_def Object_entries_def
        nm ps cs sc)
qed

lemma validate_options_option_json:
  "list_all well_formed_option os \<Longrightarrow>
   list_all (\<lambda>a. ''__proto__'' \<notin> set (map fst (scores a))) os \<Longrightarrow>
     validate_options ns i (map option_json os) = Inr os"
  by (induction os arbitrary: i) (simp_all add: validateOption_option_json)

lemma valid_tradeOffs_tradeOff_json:
  "list_all well_formed_tradeOff ts \<Longrightarrow> valid_tradeOffs (map tradeOff_json ts) = ts"
  by (induction ts)
     (simp_all add: well_formed_tradeOff_def trimmed_nonempty_def validateTradeOff_def
        tradeOff_json_def is_object_def get_prop_def)

lemma normalize_parsed_result_json:
  assumes "well_formed r"
    and "list_all (\<lambda>a. ''__proto__'' \<notin> set (map fst (scores a))) (options r)"
  shows "normalize_parsed ns (result_json r) = Inr r"
proof -
  from assms have "validate_options ns 0 (map option_json (options r)) = Inr (options r)"
    by (simp add: well_formed_def validate_options_option_json)
  moreover from assms(1) have "valid_tradeOffs (map tradeOff_json (tradeOffs r)) = tradeOffs r"
    by (simp add: well_formed_def valid_tradeOffs_tradeOff_json)
  moreover from assms(1) have "options r \<noteq> []" by (simp add: well_formed_def)
  ultimately show ?thesis
    by (simp add: normalize_parsed_def result_json_def is_object_def get_prop_def)
qed

lemma textual_strings: "textual_elements (map JString ps)"
  by (induction ps) simp_all

lemma textual_string_members: "textual_members (map (\<lambda>(k, v). (k, JString v)) kvs)"
  by (induction kvs) auto

lemma fst_string_member: "fst \<circ> (\<lambda>(k, v). (k, JString v)) = fst"
  by (auto simp: fun_eq_iff)

lemma textual_option_json: "well_formed_option a \<Longrightarrow> textual (option_json a)"
  by (simp add: option_json_def well_formed_option_def textual_strings textual_string_members
      fst_string_member)

lemma textual_options: "list_all well_formed_option os \<Longrightarrow> textual_elements (map option_json os)"
  by (induction os) (simp_all add: textual_option_json)

lemma textual_tradeOffs: "textual_elements (map tradeOff_json ts)"
  by (induction ts) (simp_all add: tradeOff_json_def)

lemma textual_result_json: "well_formed r \<Longrightarrow> textual (result_json r)"
  by (simp add: result_json_def well_formed_def textual_options textual_tradeOffs)

lemma serialize_braces: "\<exists>b. serialize r = ''{'' @ b @ ''}''"
  by (simp add: serialize_def result_json_def)

text \<open>
  Claim C10, as amended. For every well-formed result whose stored text holds no
  fenced block (no two fences one after the other) and whose scores have no key
  \<open>__proto__\<close>, normalizing the text that \<open>JSON.stringify\<close> gives for it succeeds and
  returns the result itself.
\<close>

theorem round_trip:
  assumes "well_formed r"
    and "list_all (\<lambda>a. ''__proto__'' \<notin> set (map fst (scores a))) (options r)"
    and "\<not> (\<exists>a b c. serialize r = a @ fence @ b @ fence @ c)"
  shows "normalizeGrokResponse ns (serialize r) = Inr r"
proof -
  have nofence: "fenced_block (serialize r) = None"
    by (rule iffD2 [OF fenced_block_None assms(3)])
  obtain b where b: "serialize r = ''{'' @ b @ ''}''"
    using serialize_braces by blast
  have "brace_span (serialize r) = Some (serialize r)"
    unfolding b by (rule brace_span_whole)
  with nofence have ex: "extractJson (serialize r) = serialize r"
    by (simp add: extractJson_def)
  have parse: "JSON_parse (serialize r) = Some (result_json r)"
    unfolding serialize_def using textual_result_json [OF assms(1)] by (rule JSON_parse_stringify)
  from b have "serialize r \<noteq> []" by simp
  with ex parse normalize_parsed_result_json [OF assms(1,2)] show ?thesis
    by (simp add: normalizeGrokResponse_def)
qed

theorem round_trip_witness:
  "normalizeGrokResponse (\<lambda>n. n)
     (serialize
        \<lparr>options = [\<lparr>name = ''A'', pros = [''see ```js'', [CHR 0x22, CHR 0x5C, CHR 0x0A, CHR 0x01]],
                     cons = [], scores = [(''cost'', ''low'')]\<rparr>],
         tradeOffs = [\<lparr>scenario = ''s'', recommendation = ''r''\<rparr>]\<rparr>) =
   Inr \<lparr>options = [\<lparr>name = ''A'', pros = [''see ```js'', [CHR 0x22, CHR 0x5C, CHR 0x0A, CHR 0x01]],
                     cons = [], scores = [(''cost'', ''low'')]\<rparr>],
        tradeOffs = [\<lparr>scenario = ''s'', recommendation = ''r''\<rparr>]\<rparr>"
proof -
  let ?r = "\<lparr>options = [\<lparr>name = ''A'', pros = [''see ```js'', [CHR 0x22, CHR 0x5C, CHR 0x0A, CHR 0x01]],
                     cons = [], scores = [(''cost'', ''low'')]\<rparr>],
         tradeOffs = [\<lparr>scenario = ''s'', recommendation = ''r''\<rparr>]\<rparr>"
  have h1: "well_formed ?r" by code_simp
  have h2: "list_all (\<lambda>a. ''__proto__'' \<notin> set (map fst (scores a))) (options ?r)" by simp
  have f: "fenced_block (serialize ?r) = None" by code_simp
  have h3: "\<not> (\<exists>a b c. serialize ?r = a @ fence @ b @ fence @ c)"
    by (rule iffD1 [OF fenced_block_None f])
  from round_trip [OF h1 h2 h3] show ?thesis .
qed

text \<open>
  The claim as stated fails: a well-formed result with a fenced block inside one of its
  strings is stored as a text from which the extraction step takes the interior of
  that block, which does not parse.
\<close>

theorem round_trip_counterexample:
  "well_formed
     \<lparr>options = [\<lparr>name = ''A'', pros = [''use ```js``` blocks''], cons = [], scores = []\<rparr>],
      tradeOffs = []\<rparr>
   \<and> normalizeGrokResponse (\<lambda>n. n)
       (serialize
          \<lparr>options = [\<lparr>name = ''A'', pros = [''use ```js``` blocks''], cons = [], scores = []\<rparr>],
           tradeOffs = []\<rparr>) = Inl (NormalizationError ParseFailure)"
  by code_simp

end
